theory Spec2Isabelle
  imports Main "HOL-Library.AList"
begin

section \<open>JavaScript values and the object store\<close>

text \<open>
  The dataset normaliser of \<^verbatim>\<open>dm4-dataset-core.js\<close> works on untyped JavaScript data.
  Values are the primitives and references to objects; objects live in a store and are
  compared by address, so that "the same object instance" and "a fresh object" can be said.

  Scope of the embedding: numbers are the integer-valued ones (no fractions, no NaN);
  an object is a plain object (its own enumerable properties, in enumeration order) or an
  array without holes; a property is a data property or an accessor whose getter throws an
  \<^verbatim>\<open>Error\<close> with the given message (the only way a property read can fail on such data).
  Functions, symbols and the members inherited from \<^verbatim>\<open>Object.prototype\<close>
  (\<^verbatim>\<open>constructor\<close>, \<^verbatim>\<open>toString\<close>, \<^verbatim>\<open>__proto__\<close>, ...) are outside the embedding.
\<close>

type_synonym addr = nat

datatype val = JUndefined | JNull | JBool bool | JNum int | JStr string | JRef addr

datatype property = Data val | Getter string

datatype obj = Object "(string \<times> property) list" | Array "val list"

type_synonym heap = "obj list"

datatype exn = Error string | TypeError string

fun message :: "exn \<Rightarrow> string" where
  "message (Error m) = m"
| "message (TypeError m) = m"

text \<open>Address \<open>a\<close> holds \<open>h ! a\<close>; \<^verbatim>\<open>{}\<close>, \<^verbatim>\<open>[]\<close> and \<^verbatim>\<open>Object.assign({}, ...)\<close> allocate at the
  end of the store. An address beyond the store does not occur in a run of the program; it
  reads as an empty object so that every function below stays total.\<close>

definition the_obj :: "heap \<Rightarrow> addr \<Rightarrow> obj" where
  "the_obj h a = (if a < length h then h ! a else Object [])"

definition alloc :: "heap \<Rightarrow> obj \<Rightarrow> addr \<times> heap" where
  "alloc h ob = (length h, h @ [ob])"

text \<open>\<^verbatim>\<open>o[k] = v\<close> on a plain object: an existing property keeps its place, a new one is
  appended. \<^verbatim>\<open>arr.push(v)\<close> on an array.\<close>

definition obj_set :: "heap \<Rightarrow> addr \<Rightarrow> string \<Rightarrow> val \<Rightarrow> heap" where
  "obj_set h a k v =
     (case the_obj h a of
        Object ps \<Rightarrow> h[a := Object (AList.update k (Data v) ps)]
      | Array vs \<Rightarrow> h)"

definition array_push :: "heap \<Rightarrow> addr \<Rightarrow> val \<Rightarrow> heap" where
  "array_push h a v =
     (case the_obj h a of
        Array vs \<Rightarrow> h[a := Array (vs @ [v])]
      | Object ps \<Rightarrow> h)"

fun truthy :: "val \<Rightarrow> bool" where
  "truthy JUndefined = False"
| "truthy JNull = False"
| "truthy (JBool b) = b"
| "truthy (JNum n) = (n \<noteq> 0)"
| "truthy (JStr s) = (s \<noteq> [])"
| "truthy (JRef a) = True"

fun typeof :: "val \<Rightarrow> string" where
  "typeof JUndefined = ''undefined''"
| "typeof JNull = ''object''"
| "typeof (JBool b) = ''boolean''"
| "typeof (JNum n) = ''number''"
| "typeof (JStr s) = ''string''"
| "typeof (JRef a) = ''object''"

subsection \<open>Decimal numerals and property keys\<close>

definition digit :: "nat \<Rightarrow> char" where
  "digit d = char_of (48 + d)"

fun dec :: "nat \<Rightarrow> string" where
  "dec n = (if n < 10 then [digit n] else dec (n div 10) @ [digit (n mod 10)])"

declare dec.simps [simp del]

definition dec_int :: "int \<Rightarrow> string" where
  "dec_int i = (if i < 0 then CHR ''-'' # dec (nat (- i)) else dec (nat i))"

fun join :: "string \<Rightarrow> string list \<Rightarrow> string" where
  "join sep [] = []"
| "join sep [x] = x"
| "join sep (x # y # ys) = x @ sep @ join sep (y # ys)"

text \<open>The index named by a property key of an array or string of length \<open>n\<close>, if any.\<close>

definition index_of :: "string \<Rightarrow> nat \<Rightarrow> nat option" where
  "index_of k n = find (\<lambda>i. dec i = k) [0..<n]"

definition indexed :: "'a list \<Rightarrow> (string \<times> 'a) list" where
  "indexed xs = zip (map dec [0..<length xs]) xs"

subsection \<open>Reading properties\<close>

text \<open>\<^verbatim>\<open>x[k]\<close> and \<^verbatim>\<open>x.k\<close>.\<close>

fun prop_get :: "heap \<Rightarrow> val \<Rightarrow> string \<Rightarrow> exn + val" where
  "prop_get h JUndefined k = Inl (TypeError ''Cannot read properties of undefined'')"
| "prop_get h JNull k = Inl (TypeError ''Cannot read properties of null'')"
| "prop_get h (JBool b) k = Inr JUndefined"
| "prop_get h (JNum n) k = Inr JUndefined"
| "prop_get h (JStr s) k =
     (if k = ''length'' then Inr (JNum (int (length s)))
      else case index_of k (length s) of
             Some i \<Rightarrow> Inr (JStr [s ! i])
           | None \<Rightarrow> Inr JUndefined)"
| "prop_get h (JRef a) k =
     (case the_obj h a of
        Object ps \<Rightarrow>
          (case map_of ps k of
             None \<Rightarrow> Inr JUndefined
           | Some (Data v) \<Rightarrow> Inr v
           | Some (Getter m) \<Rightarrow> Inl (Error m))
      | Array vs \<Rightarrow>
          (if k = ''length'' then Inr (JNum (int (length vs)))
           else case index_of k (length vs) of
                  Some i \<Rightarrow> Inr (vs ! i)
                | None \<Rightarrow> Inr JUndefined))"

text \<open>\<^verbatim>\<open>Object.entries(x)\<close>: the own enumerable properties in order, each one read.\<close>

fun own_entries :: "(string \<times> property) list \<Rightarrow> exn + (string \<times> val) list" where
  "own_entries [] = Inr []"
| "own_entries ((k, Getter m) # ps) = Inl (Error m)"
| "own_entries ((k, Data v) # ps) =
     (case own_entries ps of Inl e \<Rightarrow> Inl e | Inr es \<Rightarrow> Inr ((k, v) # es))"

fun Object_entries :: "heap \<Rightarrow> val \<Rightarrow> exn + (string \<times> val) list" where
  "Object_entries h JUndefined = Inl (TypeError ''Cannot convert undefined or null to object'')"
| "Object_entries h JNull = Inl (TypeError ''Cannot convert undefined or null to object'')"
| "Object_entries h (JBool b) = Inr []"
| "Object_entries h (JNum n) = Inr []"
| "Object_entries h (JStr s) = Inr (indexed (map (\<lambda>c. JStr [c]) s))"
| "Object_entries h (JRef a) =
     (case the_obj h a of Object ps \<Rightarrow> own_entries ps | Array vs \<Rightarrow> Inr (indexed vs))"

text \<open>\<^verbatim>\<open>Object.assign({}, src, {k1: v1, ...})\<close>: the properties of the fresh target after the
  sources were copied in, left to right. The literal argument is only read by the call and
  gets no address.\<close>

definition assign_all :: "(string \<times> val) list \<Rightarrow> (string \<times> val) list \<Rightarrow> (string \<times> val) list" where
  "assign_all ps es = fold (\<lambda>(k, v). AList.update k v) es ps"

definition data_props :: "(string \<times> val) list \<Rightarrow> (string \<times> property) list" where
  "data_props es = map (\<lambda>(k, v). (k, Data v)) es"

definition Object_assign :: "heap \<Rightarrow> val \<Rightarrow> (string \<times> val) list \<Rightarrow> exn + (addr \<times> heap)" where
  "Object_assign h src lit =
     (case Object_entries h src of
        Inl e \<Rightarrow> Inl e
      | Inr es \<Rightarrow> Inr (alloc h (Object (data_props (assign_all [] (es @ lit))))))"

text \<open>\<^verbatim>\<open>v || {}\<close>.\<close>

definition or_empty :: "heap \<Rightarrow> val \<Rightarrow> val \<times> heap" where
  "or_empty h v =
     (if truthy v then (v, h)
      else (let (a, h') = alloc h (Object []) in (JRef a, h')))"

text \<open>The key under which \<^verbatim>\<open>o[v] = ...\<close> stores (ToPropertyKey): a string is its own key, a
  primitive is printed, an array is its members joined by commas (an array met again inside
  itself prints as the empty string), a plain object is \<^verbatim>\<open>[object Object]\<close>.\<close>

function to_key :: "heap \<Rightarrow> addr list \<Rightarrow> val \<Rightarrow> string" where
  "to_key h st JUndefined = ''undefined''"
| "to_key h st JNull = ''null''"
| "to_key h st (JBool b) = (if b then ''true'' else ''false'')"
| "to_key h st (JNum n) = dec_int n"
| "to_key h st (JStr s) = s"
| "to_key h st (JRef a) =
     (if a \<in> set st \<or> length h \<le> a then (if a \<in> set st then [] else ''[object Object]'')
      else case h ! a of
             Object ps \<Rightarrow> ''[object Object]''
           | Array vs \<Rightarrow>
               join '','' (map (\<lambda>v. if v = JUndefined \<or> v = JNull then [] else to_key h (a # st) v) vs))"
  by pat_completeness auto
termination
proof (relation "measure (\<lambda>(h, st, v). card ({..<length h} - set st))", goal_cases)
  case 1
  show ?case by simp
next
  case (2 h st a vs v)
  then have "a \<in> {..<length h} - set st" by simp
  then have "card ({..<length h} - set st - {a}) < card ({..<length h} - set st)"
    by (intro card_Diff1_less) auto
  moreover have "{..<length h} - set (a # st) = {..<length h} - set st - {a}" by auto
  ultimately show ?case by simp
qed


section \<open>The environment of the module\<close>

text \<open>\<^verbatim>\<open>DM4.Logger\<close> may or may not be installed, \<^verbatim>\<open>DM4_DEBUG\<close> is read once when the module
  loads, and \<^verbatim>\<open>Worker\<close> may be undefined, may throw when constructed, or may work. The
  diagnostics the module issues are recorded in order: the calls of \<^verbatim>\<open>DM4.Logger.info\<close> and
  \<^verbatim>\<open>DM4.Logger.warn\<close> (also the one \<^verbatim>\<open>DM4.Logger.validate\<close> makes on a failed condition) and
  the direct \<^verbatim>\<open>console.warn\<close>, each with its message (the extra data argument is not
  recorded).\<close>

datatype worker_support = NoWorker | WorkerThrows string | WorkerWorks

record env =
  Logger :: bool
  DM4_DEBUG :: bool
  Worker :: worker_support

datatype event = LoggerInfo string | LoggerWarn string | ConsoleWarn string

definition Logger_validate :: "bool \<Rightarrow> string \<Rightarrow> event list \<Rightarrow> event list" where
  "Logger_validate condition msg tr =
     (if \<not> condition then tr @ [LoggerWarn (''Validation failed: '' @ msg)] else tr)"

section \<open>normalizeDatasetSync\<close>

text \<open>\<^verbatim>\<open>Array.isArray(coords) && coords.length >= 2\<close>.\<close>

definition valid_coords :: "heap \<Rightarrow> val \<Rightarrow> bool" where
  "valid_coords h v =
     (case v of
        JRef a \<Rightarrow> (case the_obj h a of Array vs \<Rightarrow> 2 \<le> length vs | Object ps \<Rightarrow> False)
      | _ \<Rightarrow> False)"

text \<open>The four source tables, lines 107 to 110.\<close>

definition read_sources :: "heap \<Rightarrow> val \<Rightarrow> exn + ((val \<times> val \<times> val \<times> val) \<times> heap)" where
  "read_sources h raw =
     (case prop_get h raw ''systems'' of Inl e \<Rightarrow> Inl e | Inr sv \<Rightarrow>
      (case or_empty h sv of (systemsSrc, h1) \<Rightarrow>
      (case prop_get h1 raw ''system_pixels'' of Inl e \<Rightarrow> Inl e | Inr pv \<Rightarrow>
      (case (if truthy pv then Inr pv else prop_get h1 raw ''endpoint_pixels'') of
         Inl e \<Rightarrow> Inl e | Inr pv' \<Rightarrow>
      (case or_empty h1 pv' of (pixelsSrc, h2) \<Rightarrow>
      (case prop_get h2 raw ''system_grid'' of Inl e \<Rightarrow> Inl e | Inr gv \<Rightarrow>
      (case or_empty h2 gv of (gridSrc, h3) \<Rightarrow>
      (case prop_get h3 raw ''sectors'' of Inl e \<Rightarrow> Inl e | Inr cv \<Rightarrow>
      (case or_empty h3 cv of (sectorsSrc, h4) \<Rightarrow>
         Inr ((systemsSrc, pixelsSrc, gridSrc, sectorsSrc), h4))))))))))"

text \<open>The reverse lookup, lines 113 to 120. \<^verbatim>\<open>(systemList || []).forEach\<close> needs an array: on
  any other truthy value \<^verbatim>\<open>forEach\<close> is not a function and the call throws, outside every
  \<^verbatim>\<open>try\<close>.\<close>

definition forEach_target :: "heap \<Rightarrow> val \<Rightarrow> exn + val list" where
  "forEach_target h v =
     (if \<not> truthy v then Inr []
      else case v of
             JRef a \<Rightarrow>
               (case the_obj h a of
                  Array vs \<Rightarrow> Inr vs
                | Object ps \<Rightarrow>
                    (case map_of ps ''forEach'' of
                       Some (Getter m) \<Rightarrow> Inl (Error m)
                     | _ \<Rightarrow> Inl (TypeError ''forEach is not a function'')))
           | _ \<Rightarrow> Inl (TypeError ''forEach is not a function''))"

fun index_sector :: "heap \<Rightarrow> addr \<Rightarrow> string \<Rightarrow> val list \<Rightarrow> heap" where
  "index_sector h sbs sectorName [] = h"
| "index_sector h sbs sectorName (sysId # rest) =
     index_sector (obj_set h sbs (to_key h [] sysId) (JStr sectorName)) sbs sectorName rest"

fun build_sectorBySystem :: "heap \<Rightarrow> addr \<Rightarrow> (string \<times> val) list \<Rightarrow> exn + heap" where
  "build_sectorBySystem h sbs [] = Inr h"
| "build_sectorBySystem h sbs ((sectorName, systemList) # rest) =
     (case forEach_target h systemList of
        Inl e \<Rightarrow> Inl e
      | Inr ids \<Rightarrow> build_sectorBySystem (index_sector h sbs sectorName ids) sbs rest)"

text \<open>\<^verbatim>\<open>var x = base.x; if (!x && src && src[id]) { x = src[id]; }\<close>, lines 132 to 153.\<close>

definition resolve :: "heap \<Rightarrow> val \<Rightarrow> val \<Rightarrow> string \<Rightarrow> exn + val" where
  "resolve h own src sid =
     (if \<not> truthy own \<and> truthy src then
        (case prop_get h src sid of
           Inl e \<Rightarrow> Inl e
         | Inr v \<Rightarrow> Inr (if truthy v then v else own))
      else Inr own)"

text \<open>The body of the \<^verbatim>\<open>try\<close> up to the new system object, lines 130 to 159.\<close>

definition mergeSystem ::
  "env \<Rightarrow> heap \<Rightarrow> event list \<Rightarrow> val \<Rightarrow> val \<Rightarrow> addr \<Rightarrow> string \<Rightarrow> val
     \<Rightarrow> (exn + val) \<times> heap \<times> event list" where
  "mergeSystem E h tr pixelsSrc gridSrc sbs sid base =
     (case prop_get h base ''coords'' of Inl e \<Rightarrow> (Inl e, h, tr) | Inr c0 \<Rightarrow>
      (case resolve h c0 pixelsSrc sid of Inl e \<Rightarrow> (Inl e, h, tr) | Inr coords \<Rightarrow>
      (let tr1 = (if truthy coords \<and> Logger E
                  then Logger_validate (valid_coords h coords)
                         (''System '' @ sid @ '' has invalid coords format'') tr
                  else tr) in
      (case prop_get h base ''grid'' of Inl e \<Rightarrow> (Inl e, h, tr1) | Inr g0 \<Rightarrow>
      (case resolve h g0 gridSrc sid of Inl e \<Rightarrow> (Inl e, h, tr1) | Inr grid \<Rightarrow>
      (case prop_get h base ''sector'' of Inl e \<Rightarrow> (Inl e, h, tr1) | Inr s0 \<Rightarrow>
      (case resolve h s0 (JRef sbs) sid of Inl e \<Rightarrow> (Inl e, h, tr1) | Inr sector \<Rightarrow>
      (case Object_assign h base [(''coords'', coords), (''grid'', grid), (''sector'', sector)] of
         Inl e \<Rightarrow> (Inl e, h, tr1)
       | Inr (a, h') \<Rightarrow> (Inr (JRef a), h', tr1)))))))))"

text \<open>The record that the \<^verbatim>\<open>catch\<close> pushes: \<^verbatim>\<open>{ systemId: id, error: err.message }\<close>.\<close>

definition error_record :: "string \<Rightarrow> exn \<Rightarrow> obj" where
  "error_record sid err =
     Object [(''systemId'', Data (JStr sid)), (''error'', Data (JStr (message err)))]"

text \<open>One round of the loop over \<^verbatim>\<open>Object.entries(systemsSrc)\<close>, lines 125 to 167: the
  \<^verbatim>\<open>try\<close> and its \<^verbatim>\<open>catch\<close>. \<open>ns\<close> is the address of \<^verbatim>\<open>normalizedSystems\<close>, \<open>er\<close> that of
  \<^verbatim>\<open>errors\<close>.\<close>

definition normalizeSystem ::
  "env \<Rightarrow> val \<Rightarrow> val \<Rightarrow> addr \<Rightarrow> addr \<Rightarrow> addr \<Rightarrow> string \<times> val
     \<Rightarrow> heap \<times> event list \<Rightarrow> heap \<times> event list" where
  "normalizeSystem E pixelsSrc gridSrc sbs ns er entry st =
     (case st of (h, tr) \<Rightarrow>
      (case or_empty h (snd entry) of (sys, h1) \<Rightarrow>
      (case mergeSystem E h1 tr pixelsSrc gridSrc sbs (fst entry) sys of
         (Inr v, h2, tr2) \<Rightarrow> (obj_set h2 ns (fst entry) v, tr2)
       | (Inl err, h2, tr2) \<Rightarrow>
           (case alloc h2 (error_record (fst entry) err) of
              (r, h3) \<Rightarrow>
                (array_push h3 er (JRef r),
                 if Logger E
                 then tr2 @ [LoggerWarn (''Failed to normalize system '' @ fst entry @ '':'')]
                 else tr2)))))"

text \<open>The local variables of a call that got past the input check, kept so that theorems can
  speak about them.\<close>

record locals =
  result :: val
  normalizedSystems :: addr
  errors :: addr
  sectorBySystem :: addr

definition errors_length :: "heap \<Rightarrow> addr \<Rightarrow> nat" where
  "errors_length h er = (case the_obj h er of Array vs \<Rightarrow> length vs | Object ps \<Rightarrow> 0)"

text \<open>Lines 107 to 179, for a \<open>raw\<close> that passed the check of line 98.\<close>

definition normalizeObject ::
  "env \<Rightarrow> heap \<Rightarrow> event list \<Rightarrow> val \<Rightarrow> (exn + locals) \<times> heap \<times> event list" where
  "normalizeObject E h tr raw =
     (case read_sources h raw of Inl e \<Rightarrow> (Inl e, h, tr)
      | Inr ((systemsSrc, pixelsSrc, gridSrc, sectorsSrc), h1) \<Rightarrow>
      (case alloc h1 (Object []) of (sbs, h2) \<Rightarrow>
      (case Object_entries h2 sectorsSrc of Inl e \<Rightarrow> (Inl e, h2, tr) | Inr sectorEntries \<Rightarrow>
      (case build_sectorBySystem h2 sbs sectorEntries of Inl e \<Rightarrow> (Inl e, h2, tr) | Inr h3 \<Rightarrow>
      (case alloc h3 (Object []) of (ns, h4) \<Rightarrow>
      (case alloc h4 (Array []) of (er, h5) \<Rightarrow>
      (case Object_entries h5 systemsSrc of Inl e \<Rightarrow> (Inl e, h5, tr) | Inr systemEntries \<Rightarrow>
      (case fold (normalizeSystem E pixelsSrc gridSrc sbs ns er) systemEntries (h5, tr) of
         (h6, tr6) \<Rightarrow>
      (case Object_assign h6 raw [(''systems'', JRef ns)] of Inl e \<Rightarrow> (Inl e, h6, tr6)
       | Inr (res, h7) \<Rightarrow>
           (if 0 < errors_length h7 er \<and> Logger E
            then (Inr \<lparr>result = JRef res, normalizedSystems = ns, errors = er,
                        sectorBySystem = sbs\<rparr>,
                  obj_set h7 res ''_normalizationErrors'' (JRef er),
                  tr6 @ [LoggerWarn ''Normalization completed with errors''])
            else (Inr \<lparr>result = JRef res, normalizedSystems = ns, errors = er,
                        sectorBySystem = sbs\<rparr>, h7, tr6)))))))))))"

text \<open>The whole function, lines 97 to 180: the result or the exception, the store and the
  diagnostics afterwards.\<close>

definition invalid_message :: string where
  "invalid_message = ''normalizeDataset: empty or invalid raw dataset''"

definition normalizeDatasetSync ::
  "env \<Rightarrow> heap \<Rightarrow> event list \<Rightarrow> val \<Rightarrow> (exn + val) \<times> heap \<times> event list" where
  "normalizeDatasetSync E h tr raw =
     (if \<not> truthy raw \<or> typeof raw \<noteq> ''object'' then
        (case alloc h (Object []) of (s, h1) \<Rightarrow>
        (case alloc h1 (Object [(''systems'', Data (JRef s))]) of (r, h2) \<Rightarrow>
           (Inr (JRef r), h2,
            if Logger E then tr @ [LoggerWarn invalid_message]
            else if DM4_DEBUG E then tr @ [ConsoleWarn (''[DREADMARCH] '' @ invalid_message)]
            else tr)))
      else
        (case normalizeObject E h tr raw of
           (Inl e, h', tr') \<Rightarrow> (Inl e, h', tr')
         | (Inr l, h', tr') \<Rightarrow> (Inr (result l), h', tr')))"

section \<open>The cache key\<close>

text \<open>\<^verbatim>\<open>JSON.stringify\<close> on the values of the embedding. A string is quoted with the escapes
  of the language; an array prints its members, \<^verbatim>\<open>undefined\<close> as \<^verbatim>\<open>null\<close>; an object prints
  its properties in order and leaves out those whose value is \<^verbatim>\<open>undefined\<close>. Reading an
  accessor throws, and so does an object met again inside itself (\<open>st\<close> is the stack of the
  objects being printed). The result is the exception, nothing (for \<^verbatim>\<open>undefined\<close>), or the
  text.\<close>

definition hex :: "nat \<Rightarrow> char" where
  "hex d = (if d < 10 then char_of (48 + d) else char_of (87 + d))"

definition escape :: "char \<Rightarrow> string" where
  "escape c =
     (if c = CHR 0x22 then [CHR 0x5C, CHR 0x22]
      else if c = CHR 0x5C then [CHR 0x5C, CHR 0x5C]
      else if c = CHR 0x08 then [CHR 0x5C, CHR ''b'']
      else if c = CHR 0x09 then [CHR 0x5C, CHR ''t'']
      else if c = CHR 0x0A then [CHR 0x5C, CHR ''n'']
      else if c = CHR 0x0C then [CHR 0x5C, CHR ''f'']
      else if c = CHR 0x0D then [CHR 0x5C, CHR ''r'']
      else if (of_char c :: nat) < 32
        then [CHR 0x5C, CHR ''u'', CHR ''0'', CHR ''0'', hex (of_char c div 16), hex (of_char c mod 16)]
      else [c])"

definition quote :: "string \<Rightarrow> string" where
  "quote s = CHR 0x22 # concat (map escape s) @ [CHR 0x22]"

fun collect :: "('e + 'a) list \<Rightarrow> 'e + 'a list" where
  "collect [] = Inr []"
| "collect (Inl e # xs) = Inl e"
| "collect (Inr x # xs) = (case collect xs of Inl e \<Rightarrow> Inl e | Inr ys \<Rightarrow> Inr (x # ys))"

function stringify :: "heap \<Rightarrow> addr list \<Rightarrow> val \<Rightarrow> exn + string option" where
  "stringify h st JUndefined = Inr None"
| "stringify h st JNull = Inr (Some ''null'')"
| "stringify h st (JBool b) = Inr (Some (if b then ''true'' else ''false''))"
| "stringify h st (JNum n) = Inr (Some (dec_int n))"
| "stringify h st (JStr s) = Inr (Some (quote s))"
| "stringify h st (JRef a) =
     (if a \<in> set st then Inl (TypeError ''Converting circular structure to JSON'')
      else if length h \<le> a then Inr (Some ''{}'')
      else case h ! a of
             Array vs \<Rightarrow>
               (case collect (map (\<lambda>v. case stringify h (a # st) v of
                                          Inl e \<Rightarrow> Inl e
                                        | Inr None \<Rightarrow> Inr ''null''
                                        | Inr (Some s) \<Rightarrow> Inr s) vs) of
                  Inl e \<Rightarrow> Inl e
                | Inr items \<Rightarrow> Inr (Some (''['' @ join '','' items @ '']'')))
           | Object ps \<Rightarrow>
               (case collect (map (\<lambda>p. case snd p of
                                          Getter m \<Rightarrow> Inl (Error m)
                                        | Data v \<Rightarrow>
                                            (case stringify h (a # st) v of
                                               Inl e \<Rightarrow> Inl e
                                             | Inr None \<Rightarrow> Inr []
                                             | Inr (Some s) \<Rightarrow> Inr [quote (fst p) @ '':'' @ s])) ps) of
                  Inl e \<Rightarrow> Inl e
                | Inr items \<Rightarrow> Inr (Some (''{'' @ join '','' (concat items) @ ''}''))))"
  by pat_completeness auto
termination
proof (relation "measure (\<lambda>(h, st, v). card ({..<length h} - set st))", goal_cases)
  case 1
  show ?case by simp
next
  case 2
  then show ?case by (force intro!: diff_less simp: card_gt_0_iff not_le)
next
  case 3
  then show ?case by (force intro!: diff_less simp: card_gt_0_iff not_le)
qed

text \<open>\<^verbatim>\<open>generateCacheKey\<close>, lines 34 to 43: the text, \<^verbatim>\<open>undefined\<close> when \<^verbatim>\<open>JSON.stringify\<close>
  returns it, \<^verbatim>\<open>null\<close> from the \<^verbatim>\<open>catch\<close>.\<close>

definition generateCacheKey :: "heap \<Rightarrow> val \<Rightarrow> val" where
  "generateCacheKey h raw =
     (case stringify h [] raw of
        Inl e \<Rightarrow> JNull
      | Inr None \<Rightarrow> JUndefined
      | Inr (Some s) \<Rightarrow> JStr s)"

section \<open>The module state, normalizeDataset and normalizeDatasetAsync\<close>

text \<open>A \<^verbatim>\<open>Map\<close> keeps its keys in insertion order; \<^verbatim>\<open>set\<close> on a present key keeps its
  place.\<close>

definition Map_has :: "('k \<times> 'v) list \<Rightarrow> 'k \<Rightarrow> bool" where
  "Map_has m k = (map_of m k \<noteq> None)"

definition Map_get :: "('k \<times> val) list \<Rightarrow> 'k \<Rightarrow> val" where
  "Map_get m k = (case map_of m k of Some v \<Rightarrow> v | None \<Rightarrow> JUndefined)"

definition Map_set :: "('k \<times> 'v) list \<Rightarrow> 'k \<Rightarrow> 'v \<Rightarrow> ('k \<times> 'v) list" where
  "Map_set m k v = AList.update k v m"

text \<open>The variables of the module (lines 26 to 29) with the store and the diagnostics.
  \<open>worker\<close> says whether the variable holds a worker; a pending request is kept under its
  id with its cache key (its \<^verbatim>\<open>resolve\<close> and \<^verbatim>\<open>reject\<close> belong to the promise of that id);
  \<open>posted\<close> are the messages handed to the worker.\<close>

record state =
  heap :: heap
  trace :: "event list"
  normalizationCache :: "(val \<times> val) list"
  worker :: bool
  workerRequestId :: nat
  pendingRequests :: "(nat \<times> val) list"
  posted :: "(nat \<times> val) list"

text \<open>What a call hands back: a promise is settled by the time the call returns, or waits
  for the worker's answer to the request of the given id. The handlers of the worker's
  messages and the timer of line 234 run after the call and are not part of it.\<close>

datatype promise = Resolved val | Rejected exn | Pending nat

datatype outcome = Returns val | Throws exn | Promise promise

text \<open>\<^verbatim>\<open>if (DM4.Logger) { DM4.Logger.info(msg); }\<close> and the same with \<^verbatim>\<open>warn\<close>.\<close>

definition Logger_info :: "env \<Rightarrow> string \<Rightarrow> event list \<Rightarrow> event list" where
  "Logger_info E msg tr = (if Logger E then tr @ [LoggerInfo msg] else tr)"

definition Logger_warn :: "env \<Rightarrow> string \<Rightarrow> event list \<Rightarrow> event list" where
  "Logger_warn E msg tr = (if Logger E then tr @ [LoggerWarn msg] else tr)"

text \<open>\<^verbatim>\<open>initWorker\<close>, lines 48 to 92.\<close>

definition initWorker :: "env \<Rightarrow> state \<Rightarrow> state" where
  "initWorker E s =
     (if worker s \<or> Worker E = NoWorker then s
      else case Worker E of
             WorkerWorks \<Rightarrow> s\<lparr>worker := True\<rparr>
           | WorkerThrows m \<Rightarrow>
               s\<lparr>worker := False, trace := Logger_warn E ''Failed to initialize worker:'' (trace s)\<rparr>
           | NoWorker \<Rightarrow> s)"

text \<open>\<^verbatim>\<open>normalizeDatasetAsync\<close>, lines 185 to 252, up to the return of the call.\<close>

definition normalizeDatasetAsync :: "env \<Rightarrow> state \<Rightarrow> val \<Rightarrow> promise \<times> state" where
  "normalizeDatasetAsync E s raw =
     (let cacheKey = generateCacheKey (heap s) raw in
      if truthy cacheKey \<and> Map_has (normalizationCache s) cacheKey then
        (Resolved (Map_get (normalizationCache s) cacheKey),
         s\<lparr>trace := Logger_info E ''Cache hit for dataset normalization'' (trace s)\<rparr>)
      else
        (let s1 = (if \<not> worker s then initWorker E s else s) in
         if \<not> worker s1 then
           (case normalizeDatasetSync E (heap s1)
                   (Logger_info E ''Worker not available, using synchronous normalization''
                      (trace s1)) raw of
              (Inr res, h', tr') \<Rightarrow>
                (Resolved res,
                 s1\<lparr>heap := h', trace := tr',
                    normalizationCache :=
                      (if truthy cacheKey then Map_set (normalizationCache s1) cacheKey res
                       else normalizationCache s1)\<rparr>)
            | (Inl e, h', tr') \<Rightarrow> (Rejected e, s1\<lparr>heap := h', trace := tr'\<rparr>))
         else
           (let requestId = workerRequestId s1 + 1 in
            (Pending requestId,
             s1\<lparr>workerRequestId := requestId,
                pendingRequests := Map_set (pendingRequests s1) requestId cacheKey,
                posted := posted s1 @ [(requestId, raw)]\<rparr>))))"

text \<open>\<^verbatim>\<open>normalizeDataset\<close>, lines 261 to 282; \<open>async\<close> is the truth of \<^verbatim>\<open>options.async\<close>.
  This is \<^verbatim>\<open>DM4.dataset.normalize\<close>.\<close>

definition normalizeDataset :: "env \<Rightarrow> state \<Rightarrow> val \<Rightarrow> bool \<Rightarrow> outcome \<times> state" where
  "normalizeDataset E s raw async =
     (if async then
        (case normalizeDatasetAsync E s raw of (p, s') \<Rightarrow> (Promise p, s'))
      else
        (let cacheKey = generateCacheKey (heap s) raw in
         if truthy cacheKey \<and> Map_has (normalizationCache s) cacheKey then
           (Returns (Map_get (normalizationCache s) cacheKey),
            s\<lparr>trace := Logger_info E ''Cache hit for dataset normalization'' (trace s)\<rparr>)
         else
           (case normalizeDatasetSync E (heap s) (trace s) raw of
              (Inr res, h', tr') \<Rightarrow>
                (Returns res,
                 s\<lparr>heap := h', trace := tr',
                   normalizationCache :=
                     (if truthy cacheKey then Map_set (normalizationCache s) cacheKey res
                      else normalizationCache s)\<rparr>)
            | (Inl e, h', tr') \<Rightarrow> (Throws e, s\<lparr>heap := h', trace := tr'\<rparr>))))"

section \<open>Notions used in the statements\<close>

text \<open>A store is well formed when the keys of every object are distinct and every
  reference kept in it points into the store. \<open>unchanged A h h'\<close>: the store has only grown
  and, among the old addresses, only those in \<open>A\<close> may hold something else.\<close>

fun val_ok :: "nat \<Rightarrow> val \<Rightarrow> bool" where
  "val_ok n (JRef a) = (a < n)"
| "val_ok n v = True"

fun property_ok :: "nat \<Rightarrow> property \<Rightarrow> bool" where
  "property_ok n (Data v) = val_ok n v"
| "property_ok n (Getter m) = True"

fun obj_ok :: "nat \<Rightarrow> obj \<Rightarrow> bool" where
  "obj_ok n (Object ps) = (distinct (map fst ps) \<and> list_all (\<lambda>p. property_ok n (snd p)) ps)"
| "obj_ok n (Array vs) = list_all (val_ok n) vs"

definition wf_heap :: "heap \<Rightarrow> bool" where
  "wf_heap h = list_all (obj_ok (length h)) h"

definition unchanged :: "addr set \<Rightarrow> heap \<Rightarrow> heap \<Rightarrow> bool" where
  "unchanged A h h' \<longleftrightarrow> length h \<le> length h' \<and> (\<forall>a<length h. a \<notin> A \<longrightarrow> h' ! a = h ! a)"

definition fixed_in :: "heap \<Rightarrow> addr set \<Rightarrow> val \<Rightarrow> bool" where
  "fixed_in h A v \<longleftrightarrow> (\<forall>a. v = JRef a \<longrightarrow> a < length h \<and> a \<notin> A)"

text \<open>The members that \<^verbatim>\<open>forEach\<close> visits in a sector list, the pairs (key, sector name) in
  the order in which the reverse lookup stores them, and the properties that storing them
  one after the other leaves.\<close>

definition members :: "heap \<Rightarrow> val \<Rightarrow> val list" where
  "members h lst = (case forEach_target h lst of Inr ids \<Rightarrow> ids | Inl e \<Rightarrow> [])"

definition sector_pairs :: "heap \<Rightarrow> (string \<times> val) list \<Rightarrow> (string \<times> string) list" where
  "sector_pairs h es =
     concat (map (\<lambda>(sectorName, systemList).
                    map (\<lambda>sysId. (to_key h [] sysId, sectorName)) (members h systemList)) es)"

definition index_props ::
  "(string \<times> string) list \<Rightarrow> (string \<times> property) list \<Rightarrow> (string \<times> property) list" where
  "index_props pairs ps = fold (\<lambda>(k, sectorName). AList.update k (Data (JStr sectorName))) pairs ps"

text \<open>What one system's own record holds, said on the entry of \<^verbatim>\<open>raw.systems\<close> itself: a
  falsy entry stands for the empty record that \<^verbatim>\<open>entry[1] || {}\<close> puts in its place.\<close>

definition own_field :: "heap \<Rightarrow> val \<Rightarrow> string \<Rightarrow> exn + val" where
  "own_field h sys k = (if truthy sys then prop_get h sys k else Inr JUndefined)"

definition own_entries_of :: "heap \<Rightarrow> val \<Rightarrow> exn + (string \<times> val) list" where
  "own_entries_of h sys = (if truthy sys then Object_entries h sys else Inr [])"

text \<open>The rule by which a field is resolved: the own value when it is truthy, else the value
  looked up in the side table when that is truthy, else the own value again.\<close>

definition own_or_table :: "val \<Rightarrow> exn + val \<Rightarrow> exn + val" where
  "own_or_table own looked_up =
     (if truthy own then Inr own
      else case looked_up of Inl e \<Rightarrow> Inl e | Inr w \<Rightarrow> Inr (if truthy w then w else own))"

text \<open>The merge of one system as a function of the store alone: the exception that the
  \<^verbatim>\<open>try\<close> block throws, or the properties of the new system object.\<close>

definition merge_result ::
  "heap \<Rightarrow> val \<Rightarrow> val \<Rightarrow> val \<Rightarrow> string \<Rightarrow> val \<Rightarrow> exn + (string \<times> val) list" where
  "merge_result h pix grid sec sid sys =
     (case own_field h sys ''coords'' of Inl e \<Rightarrow> Inl e | Inr c0 \<Rightarrow>
      (case own_or_table c0 (prop_get h pix sid) of Inl e \<Rightarrow> Inl e | Inr c \<Rightarrow>
      (case own_field h sys ''grid'' of Inl e \<Rightarrow> Inl e | Inr g0 \<Rightarrow>
      (case own_or_table g0 (prop_get h grid sid) of Inl e \<Rightarrow> Inl e | Inr g \<Rightarrow>
      (case own_field h sys ''sector'' of Inl e \<Rightarrow> Inl e | Inr s0 \<Rightarrow>
      (case own_or_table s0 (prop_get h sec sid) of Inl e \<Rightarrow> Inl e | Inr s \<Rightarrow>
      (case own_entries_of h sys of Inl e \<Rightarrow> Inl e | Inr es \<Rightarrow>
         Inr (assign_all [] (es @ [(''coords'', c), (''grid'', g), (''sector'', s)])))))))))"

definition failures ::
  "heap \<Rightarrow> val \<Rightarrow> val \<Rightarrow> val \<Rightarrow> (string \<times> val) list \<Rightarrow> (string \<times> exn) list" where
  "failures h pix grid sec es =
     concat (map (\<lambda>(sid, sys). case merge_result h pix grid sec sid sys of
                                  Inl err \<Rightarrow> [(sid, err)] | Inr ps \<Rightarrow> []) es)"

text \<open>Invariants of the loop over the systems and the facts about a finished run, for the
  proofs below.\<close>

definition loop_inv :: "heap \<Rightarrow> addr \<Rightarrow> addr \<Rightarrow> bool" where
  "loop_inv h ns er \<longleftrightarrow>
     ns < length h \<and> er < length h \<and> ns \<noteq> er \<and>
     (\<exists>ps. the_obj h ns = Object ps) \<and> (\<exists>vs. the_obj h er = Array vs)"

definition tables_fixed :: "heap \<Rightarrow> addr set \<Rightarrow> val \<Rightarrow> val \<Rightarrow> addr \<Rightarrow> bool" where
  "tables_fixed h A pix grid sbs \<longleftrightarrow>
     truthy pix \<and> truthy grid \<and> fixed_in h A pix \<and> fixed_in h A grid \<and> fixed_in h A (JRef sbs)"

definition entry_done ::
  "heap \<Rightarrow> nat \<Rightarrow> (string \<times> property) list \<Rightarrow> (string \<times> property) list
     \<Rightarrow> val \<Rightarrow> val \<Rightarrow> val \<Rightarrow> string \<times> val \<Rightarrow> bool" where
  "entry_done h' n nps nps' pix grid sec e \<longleftrightarrow>
     (case merge_result h' pix grid sec (fst e) (snd e) of
        Inr ps \<Rightarrow> (\<exists>a. n \<le> a \<and> a < length h' \<and> map_of nps' (fst e) = Some (Data (JRef a)) \<and>
                     the_obj h' a = Object (data_props ps))
      | Inl err \<Rightarrow> map_of nps' (fst e) = map_of nps (fst e))"

definition error_logged :: "heap \<Rightarrow> nat \<Rightarrow> val \<Rightarrow> string \<times> exn \<Rightarrow> bool" where
  "error_logged h' n v f \<longleftrightarrow>
     (\<exists>r. v = JRef r \<and> n \<le> r \<and> r < length h' \<and> the_obj h' r = error_record (fst f) (snd f))"


definition run_facts ::
  "env \<Rightarrow> heap \<Rightarrow> heap \<Rightarrow> heap \<Rightarrow> addr \<Rightarrow> locals \<Rightarrow> val \<Rightarrow> val \<Rightarrow> val \<Rightarrow> val
     \<Rightarrow> (string \<times> val) list \<Rightarrow> (string \<times> val) list \<Rightarrow> (string \<times> property) list \<Rightarrow> val list
     \<Rightarrow> (string \<times> property) list \<Rightarrow> addr \<Rightarrow> bool" where
  "run_facts E h h1 h' r l S P G C ces ses nps evs rps res \<longleftrightarrow>
    wf_heap h1 \<and> unchanged {} h h1 \<and> unchanged {} h1 h' \<and>
    val_ok (length h1) S \<and> val_ok (length h1) P \<and> val_ok (length h1) G \<and> val_ok (length h1) C \<and>
    truthy S \<and> truthy P \<and> truthy G \<and> truthy C \<and>
    l = \<lparr>result = JRef res, normalizedSystems = length h1 + 1, errors = length h1 + 2,
          sectorBySystem = length h1\<rparr> \<and>
    length h1 + 3 \<le> res \<and> res < length h' \<and>
    Object_entries h' C = Inr ces \<and> Object_entries h' S = Inr ses \<and>
    the_obj h' (length h1) = Object (index_props (sector_pairs h' ces) []) \<and>
    (\<forall>(name, lst)\<in>set ces. forEach_target h' lst = Inr (members h' lst)) \<and>
    the_obj h' (length h1 + 1) = Object nps \<and> the_obj h' (length h1 + 2) = Array evs \<and>
    (\<forall>k. k \<notin> fst ` set ses \<longrightarrow> map_of nps k = None) \<and>
    (\<forall>e\<in>set ses. entry_done h' (length h1 + 3) [] nps P G (JRef (length h1)) e) \<and>
    list_all2 (error_logged h' (length h1 + 3)) evs (failures h' P G (JRef (length h1)) ses) \<and>
    the_obj h' res = Object rps \<and> map_of rps ''systems'' = Some (Data (JRef (length h1 + 1))) \<and>
    (evs \<noteq> [] \<and> Logger E \<longrightarrow>
       map_of rps ''_normalizationErrors'' = Some (Data (JRef (length h1 + 2)))) \<and>
    (\<not> (evs \<noteq> [] \<and> Logger E) \<longrightarrow>
       (\<exists>res_es. Object_entries h' (JRef r) = Inr res_es \<and>
          rps = data_props (assign_all [] (res_es @ [(''systems'', JRef (length h1 + 1))]))))"

section \<open>Example datasets\<close>

text \<open>The dataset of the specification's example,
  \<^verbatim>\<open>{systems: {sol: {name: 'Sol'}}, system_pixels: {sol: [100, 200]}, sectors: {core: ['sol']}}\<close>,
  at address 0 of a store, and an environment with a logger and without workers.\<close>

definition sol_heap :: heap where
  "sol_heap =
     [Object [(''systems'', Data (JRef 1)), (''system_pixels'', Data (JRef 3)),
              (''sectors'', Data (JRef 5))],
      Object [(''sol'', Data (JRef 2))],
      Object [(''name'', Data (JStr ''Sol''))],
      Object [(''sol'', Data (JRef 4))],
      Array [JNum 100, JNum 200],
      Object [(''core'', Data (JRef 6))],
      Array [JStr ''sol'']]"

definition env_logger :: env where
  "env_logger = \<lparr>Logger = True, DM4_DEBUG = False, Worker = NoWorker\<rparr>"

definition env_bare :: env where
  "env_bare = \<lparr>Logger = False, DM4_DEBUG = False, Worker = NoWorker\<rparr>"

text \<open>The locals and the store after \<^verbatim>\<open>normalizeDatasetSync\<close> has run on it.\<close>

definition sol_locals :: locals where
  "sol_locals = \<lparr>result = JRef 12, normalizedSystems = 9, errors = 10, sectorBySystem = 8\<rparr>"

definition sol_after :: heap where
  "sol_after = sol_heap @
     [Object [],
      Object [(''sol'', Data (JStr ''core''))],
      Object [(''sol'', Data (JRef 11))],
      Array [],
      Object [(''name'', Data (JStr ''Sol'')), (''coords'', Data (JRef 4)),
              (''grid'', Data JUndefined), (''sector'', Data (JStr ''core''))],
      Object [(''systems'', Data (JRef 9)), (''system_pixels'', Data (JRef 3)),
              (''sectors'', Data (JRef 5))]]"


text \<open>The module's variables right after the script has loaded, over a given store.\<close>

definition initial_state :: "heap \<Rightarrow> state" where
  "initial_state h =
     \<lparr>heap = h, trace = [], normalizationCache = [], worker = False, workerRequestId = 0,
      pendingRequests = [], posted = []\<rparr>"

text \<open>What \<^verbatim>\<open>JSON.stringify\<close> gives for the dataset above, and the module's variables after
  the first \<^verbatim>\<open>DM4.dataset.normalize\<close> of it.\<close>

definition sol_key :: string where
  \<open>sol_key = ''{"systems":{"sol":{"name":"Sol"}},"system_pixels":{"sol":[100,200]},"sectors":{"core":["sol"]}}''\<close>

definition sol_cached :: state where
  "sol_cached = (initial_state sol_after)\<lparr>normalizationCache := [(JStr sol_key, JRef 12)]\<rparr>"

text \<open>Two structurally equal datasets \<^verbatim>\<open>{systems: {sol: null}}\<close>, at the addresses 0 and 2, with
  their common serialization and the module's variables after the first one has been
  normalized.\<close>

definition twin_heap :: heap where
  "twin_heap =
     [Object [(''systems'', Data (JRef 1))],
      Object [(''sol'', Data JNull)],
      Object [(''systems'', Data (JRef 3))],
      Object [(''sol'', Data JNull)]]"

definition twin_key :: string where
  \<open>twin_key = ''{"systems":{"sol":null}}''\<close>

definition twin_cached :: state where
  "twin_cached =
     (initial_state (twin_heap @
        [Object [], Object [], Object [], Object [],
         Object [(''sol'', Data (JRef 11))],
         Array [],
         Object [],
         Object [(''coords'', Data JUndefined), (''grid'', Data JUndefined),
                 (''sector'', Data JUndefined)],
         Object [(''systems'', Data (JRef 8))]]))
     \<lparr>normalizationCache := [(JStr twin_key, JRef 12)]\<rparr>"






text \<open>\<^verbatim>\<open>{systems: {bad: {get coords() { throw new Error('boom') }}, ok: {name: 'Ok'}}}\<close>: reading
  the coordinates of the first system throws. The locals are the same with and without a
  logger; the stores differ in the result object only.\<close>

definition getter_heap :: heap where
  "getter_heap =
     [Object [(''systems'', Data (JRef 1))],
      Object [(''bad'', Data (JRef 2)), (''ok'', Data (JRef 3))],
      Object [(''coords'', Getter ''boom'')],
      Object [(''name'', Data (JStr ''Ok''))]]"

definition getter_locals :: locals where
  "getter_locals =
     \<lparr>result = JRef 12, normalizedSystems = 8, errors = 9, sectorBySystem = 7\<rparr>"

definition getter_fresh :: heap where
  "getter_fresh =
     [Object [], Object [], Object [], Object [],
      Object [(''ok'', Data (JRef 11))],
      Array [JRef 10],
      Object [(''systemId'', Data (JStr ''bad'')), (''error'', Data (JStr ''boom''))],
      Object [(''name'', Data (JStr ''Ok'')), (''coords'', Data JUndefined),
              (''grid'', Data JUndefined), (''sector'', Data JUndefined)]]"

definition getter_after_bare :: heap where
  "getter_after_bare = getter_heap @ getter_fresh @ [Object [(''systems'', Data (JRef 8))]]"

definition getter_after_logger :: heap where
  "getter_after_logger = getter_heap @ getter_fresh @
     [Object [(''systems'', Data (JRef 8)), (''_normalizationErrors'', Data (JRef 9))]]"




section \<open>The cache key of the specification\<close>





section \<open>Lemmas about the store\<close>

lemma the_obj_append: "a < length h \<Longrightarrow> the_obj (h @ xs) a = the_obj h a"
  by (simp add: the_obj_def nth_append)

lemma the_obj_new: "the_obj (h @ [ob]) (length h) = ob"
  by (simp add: the_obj_def)

lemma length_obj_set: "length (obj_set h a k v) = length h"
  by (simp add: obj_set_def split: obj.splits)

lemma length_array_push: "length (array_push h a v) = length h"
  by (simp add: array_push_def split: obj.splits)

lemma the_obj_obj_set_other: "b \<noteq> a \<Longrightarrow> the_obj (obj_set h a k v) b = the_obj h b"
  by (simp add: obj_set_def the_obj_def split: obj.splits)

lemma the_obj_array_push_other: "b \<noteq> a \<Longrightarrow> the_obj (array_push h a v) b = the_obj h b"
  by (simp add: array_push_def the_obj_def split: obj.splits)

lemma the_obj_obj_set_same:
  "the_obj h a = Object ps \<Longrightarrow> a < length h \<Longrightarrow>
   the_obj (obj_set h a k v) a = Object (AList.update k (Data v) ps)"
  by (simp add: obj_set_def the_obj_def)

lemma the_obj_obj_set_array:
  "the_obj h a = Array vs \<Longrightarrow> obj_set h a k v = h"
  by (simp add: obj_set_def)

lemma the_obj_array_push_same:
  "the_obj h a = Array vs \<Longrightarrow> a < length h \<Longrightarrow>
   the_obj (array_push h a v) a = Array (vs @ [v])"
  by (simp add: array_push_def the_obj_def)

lemma unchanged_refl: "unchanged A h h"
  by (simp add: unchanged_def)

lemma unchanged_trans: "unchanged A h h' \<Longrightarrow> unchanged A h' h'' \<Longrightarrow> unchanged A h h''"
  by (auto simp: unchanged_def)

lemma unchanged_mono: "unchanged A h h' \<Longrightarrow> A \<subseteq> B \<Longrightarrow> unchanged B h h'"
  by (auto simp: unchanged_def)

lemma unchanged_append: "unchanged A h (h @ xs)"
  by (simp add: unchanged_def nth_append)

lemma unchanged_obj_set: "a \<in> A \<Longrightarrow> unchanged A h (obj_set h a k v)"
  by (cases "the_obj h a") (auto simp: unchanged_def obj_set_def intro!: nth_list_update_neq)

lemma unchanged_array_push: "a \<in> A \<Longrightarrow> unchanged A h (array_push h a v)"
  by (cases "the_obj h a") (auto simp: unchanged_def array_push_def intro!: nth_list_update_neq)

lemma unchanged_the_obj:
  "unchanged A h h' \<Longrightarrow> a < length h \<Longrightarrow> a \<notin> A \<Longrightarrow> the_obj h' a = the_obj h a"
  by (auto simp: unchanged_def the_obj_def)

lemma unchanged_take:
  "unchanged A h h' \<Longrightarrow> \<forall>a\<in>A. length h \<le> a \<Longrightarrow> take (length h) h' = h"
  by (fastforce simp: unchanged_def list_eq_iff_nth_eq)

lemma fixed_in_prim [simp]:
  "fixed_in h A JUndefined" "fixed_in h A JNull" "fixed_in h A (JBool b)" "fixed_in h A (JNum n)" "fixed_in h A (JStr s)"
  by (simp_all add: fixed_in_def)

lemma fixed_in_ref [simp]: "fixed_in h A (JRef a) \<longleftrightarrow> a < length h \<and> a \<notin> A"
  by (simp add: fixed_in_def)

lemma prop_get_unchanged:
  "unchanged A h h' \<Longrightarrow> fixed_in h A v \<Longrightarrow> prop_get h' v k = prop_get h v k"
  by (cases v) (simp_all add: unchanged_the_obj)

lemma Object_entries_unchanged:
  "unchanged A h h' \<Longrightarrow> fixed_in h A v \<Longrightarrow> Object_entries h' v = Object_entries h v"
  by (cases v) (simp_all add: unchanged_the_obj)

lemma forEach_target_unchanged:
  "unchanged A h h' \<Longrightarrow> fixed_in h A v \<Longrightarrow> forEach_target h' v = forEach_target h v"
  by (cases v) (simp_all add: forEach_target_def unchanged_the_obj)

lemma resolve_unchanged:
  "unchanged A h h' \<Longrightarrow> fixed_in h A src \<Longrightarrow> resolve h' own src sid = resolve h own src sid"
  by (simp add: resolve_def prop_get_unchanged)

lemma fixed_in_unchanged: "unchanged A h h' \<Longrightarrow> fixed_in h A v \<Longrightarrow> fixed_in h' A v"
  by (auto simp: fixed_in_def unchanged_def)

lemma val_ok_mono: "val_ok n v \<Longrightarrow> n \<le> m \<Longrightarrow> val_ok m v"
  by (cases v) auto

lemma property_ok_mono: "property_ok n p \<Longrightarrow> n \<le> m \<Longrightarrow> property_ok m p"
  by (cases p) (auto intro: val_ok_mono)

lemma obj_ok_mono: "obj_ok n ob \<Longrightarrow> n \<le> m \<Longrightarrow> obj_ok m ob"
  by (cases ob) (auto simp: list_all_iff intro: val_ok_mono property_ok_mono)

lemma wf_heap_the_obj: "wf_heap h \<Longrightarrow> obj_ok (length h) (the_obj h a)"
  by (auto simp: wf_heap_def the_obj_def list_all_iff)

lemma wf_heap_append_empty: "wf_heap h \<Longrightarrow> wf_heap (h @ [Object []])"
  by (auto simp: wf_heap_def list_all_iff intro: obj_ok_mono)

lemma val_ok_fixed: "val_ok (length h) v \<Longrightarrow> \<forall>a\<in>A. length h \<le> a \<Longrightarrow> fixed_in h A v"
  by (cases v) auto

lemma dec_nonempty: "dec n \<noteq> []"
  by (subst dec.simps) simp

lemma digit_inj: "n < 10 \<Longrightarrow> m < 10 \<Longrightarrow> digit n = digit m \<Longrightarrow> n = m"
proof -
  assume a: "n < 10" "m < 10" "digit n = digit m"
  have "of_char (digit k) = (48 + k) mod (256::nat)" for k
    by (simp add: digit_def)
  with a(3) have "(48 + n) mod 256 = (48 + m) mod (256::nat)" by metis
  with a(1,2) show "n = m" by simp
qed

lemma dec_inj: "dec n = dec m \<Longrightarrow> n = m"
proof (induction n arbitrary: m rule: dec.induct)
  case (1 n)
  show ?case
  proof (cases "n < 10")
    case True
    show ?thesis
    proof (cases "m < 10")
      case mlt: True
      from "1.prems" True mlt have "digit n = digit m"
        by (subst (asm) dec.simps, subst (asm) (2) dec.simps) simp
      with True mlt show ?thesis by (rule digit_inj)
    next
      case False
      from "1.prems" True False have "[digit n] = dec (m div 10) @ [digit (m mod 10)]"
        by (subst (asm) dec.simps, subst (asm) (2) dec.simps) simp
      then have "dec (m div 10) = []" by simp
      then show ?thesis by (simp add: dec_nonempty)
    qed
  next
    case False
    show ?thesis
    proof (cases "m < 10")
      case True
      from "1.prems" True False have "dec (n div 10) @ [digit (n mod 10)] = [digit m]"
        by (subst (asm) dec.simps, subst (asm) (2) dec.simps) simp
      then have "dec (n div 10) = []" by simp
      then show ?thesis by (simp add: dec_nonempty)
    next
      case mge: False
      from "1.prems" False mge have eq: "dec (n div 10) = dec (m div 10)" "digit (n mod 10) = digit (m mod 10)"
        by (subst (asm) dec.simps, subst (asm) (2) dec.simps, simp)+
      from "1.IH"[OF False eq(1)] have d: "n div 10 = m div 10" .
      from eq(2) have "n mod 10 = m mod 10" by (intro digit_inj) auto
      with d show ?thesis by (metis div_mult_mod_eq)
    qed
  qed
qed

lemma distinct_indexed: "distinct (map fst (indexed xs))"
  by (simp add: indexed_def distinct_map inj_on_def dec_inj)

lemma set_indexed: "(k, v) \<in> set (indexed xs) \<Longrightarrow> v \<in> set xs"
  by (auto simp: indexed_def dest: set_zip_rightD)

lemma own_entries_Inr:
  "own_entries ps = Inr es \<Longrightarrow> ps = data_props es"
  by (induction ps arbitrary: es rule: own_entries.induct)
     (auto simp: data_props_def split: sum.splits)

lemma map_fst_data_props [simp]: "map fst (data_props es) = map fst es"
  by (simp add: data_props_def case_prod_unfold)

lemma in_data_props: "(k, p) \<in> set (data_props es) \<longleftrightarrow> (\<exists>v. p = Data v \<and> (k, v) \<in> set es)"
  by (auto simp: data_props_def)

lemma map_of_data_props: "map_of (data_props es) k = map_option Data (map_of es k)"
  by (induction es) (auto simp: data_props_def)

lemma data_props_ok:
  "list_all (\<lambda>p. property_ok n (snd p)) (data_props es) \<longleftrightarrow> (\<forall>(k, w) \<in> set es. val_ok n w)"
  by (auto simp: list_all_iff data_props_def)

lemma wf_Object_entries:
  assumes "wf_heap h" "Object_entries h v = Inr es"
  shows "distinct (map fst es)" and "\<forall>(k, w) \<in> set es. val_ok (length h) w"
proof -
  have "distinct (map fst es) \<and> (\<forall>(k, w) \<in> set es. val_ok (length h) w)"
  proof (cases v)
    case (JRef a)
    show ?thesis
    proof (cases "the_obj h a")
      case (Object ps)
      with JRef assms(2) have "ps = data_props es" by (simp add: own_entries_Inr)
      with wf_heap_the_obj[OF assms(1), of a] Object show ?thesis
        by (auto simp: data_props_ok)
    next
      case (Array vs)
      with JRef assms(2) have "es = indexed vs" by simp
      with wf_heap_the_obj[OF assms(1), of a] Array show ?thesis
        by (auto simp: list_all_iff distinct_indexed dest: set_indexed)
    qed
  next
    case (JStr s)
    with assms(2) have "es = indexed (map (\<lambda>c. JStr [c]) s)" by simp
    then show ?thesis by (auto simp: distinct_indexed dest!: set_indexed)
  qed (use assms(2) in auto)
  then show "distinct (map fst es)" and "\<forall>(k, w) \<in> set es. val_ok (length h) w" by auto
qed

lemma index_of_Some: "index_of k n = Some i \<Longrightarrow> i < n"
  by (auto simp: index_of_def find_Some_iff)

lemma wf_prop_get:
  assumes "wf_heap h" "prop_get h v k = Inr w"
  shows "val_ok (length h) w"
proof (cases v)
  case (JRef a)
  show ?thesis
  proof (cases "the_obj h a")
    case (Object ps)
    with JRef assms(2) have "w = JUndefined \<or> (k, Data w) \<in> set ps"
      by (auto split: option.splits property.splits dest: map_of_SomeD)
    with wf_heap_the_obj[OF assms(1), of a] Object show ?thesis
      by (auto simp: list_all_iff)
  next
    case (Array vs)
    with JRef assms(2) have "w = JUndefined \<or> (\<exists>n. w = JNum n) \<or> w \<in> set vs"
      by (auto split: if_splits option.splits dest: index_of_Some)
    with wf_heap_the_obj[OF assms(1), of a] Array show ?thesis
      by (auto simp: list_all_iff)
  qed
qed (use assms(2) in \<open>auto split: if_splits option.splits\<close>)

lemma wf_forEach_target:
  assumes "wf_heap h" "forEach_target h v = Inr ids"
  shows "\<forall>w\<in>set ids. val_ok (length h) w"
proof (cases v)
  case (JRef a)
  with assms(2) wf_heap_the_obj[OF assms(1), of a] show ?thesis
    by (auto simp: forEach_target_def list_all_iff split: obj.splits option.splits property.splits)
qed (use assms(2) in \<open>auto simp: forEach_target_def split: if_splits\<close>)

lemma to_key_unchanged:
  assumes "wf_heap h" "unchanged A h h'" "\<forall>a\<in>A. length h \<le> a" "val_ok (length h) v"
  shows "to_key h' st v = to_key h st v"
  using assms
proof (induction h st v rule: to_key.induct)
  case (6 h st a)
  from "6.prems" have a: "a < length h" "a \<notin> A" by auto
  with "6.prems"(2) have eq: "h' ! a = h ! a" and len: "a < length h'"
    by (auto simp: unchanged_def)
  show ?case
  proof (cases "a \<in> set st")
    case True
    then show ?thesis by simp
  next
    case False
    show ?thesis
    proof (cases "h ! a")
      case (Object ps)
      with a len eq False show ?thesis by simp
    next
      case (Array vs)
      have ok: "\<forall>v\<in>set vs. val_ok (length h) v"
        using wf_heap_the_obj[OF "6.prems"(1), of a] a Array
        by (simp add: the_obj_def list_all_iff)
      have "to_key h' (a # st) v = to_key h (a # st) v"
        if "v \<in> set vs" "\<not> (v = JUndefined \<or> v = JNull)" for v
        using "6.IH"[OF _ Array that "6.prems"(1,2,3)] False a ok that by auto
      then have meq: "map (\<lambda>v. if v = JUndefined \<or> v = JNull then [] else to_key h' (a # st) v) vs
               = map (\<lambda>v. if v = JUndefined \<or> v = JNull then [] else to_key h (a # st) v) vs"
        by (intro map_cong) auto
      from a len eq False Array show ?thesis by (simp add: meq)
    qed
  qed
qed simp_all

lemma index_props_append: "index_props (xs @ ys) ps = index_props ys (index_props xs ps)"
  by (simp add: index_props_def)


lemma list_update_the_obj: "the_obj g a = ob \<Longrightarrow> a < length g \<Longrightarrow> g[a := ob] = g"
  by (auto simp: the_obj_def)

lemma index_sector_spec:
  assumes "wf_heap H" "unchanged {} H g" "length H \<le> sbs" "sbs < length g"
    and "the_obj g sbs = Object ps" "\<forall>v\<in>set ids. val_ok (length H) v"
  shows "index_sector g sbs name ids =
           g[sbs := Object (index_props (map (\<lambda>v. (to_key H [] v, name)) ids) ps)]"
  using assms(2,4,5,6)
proof (induction ids arbitrary: g ps)
  case Nil
  then show ?case by (simp add: index_props_def list_update_the_obj)
next
  case (Cons v ids)
  let ?g = "obj_set g sbs (to_key g [] v) (JStr name)"
  have k: "to_key g [] v = to_key H [] v"
    using to_key_unchanged[OF assms(1) Cons.prems(1)] Cons.prems(4) by simp
  have g': "?g = g[sbs := Object (AList.update (to_key H [] v) (Data (JStr name)) ps)]"
    using Cons.prems(3) by (simp add: obj_set_def k)
  have u: "unchanged {} H ?g"
    using Cons.prems(1) assms(3) unfolding g' by (auto simp: unchanged_def)
  have o: "the_obj ?g sbs = Object (AList.update (to_key H [] v) (Data (JStr name)) ps)"
    using Cons.prems(2) unfolding g' by (simp add: the_obj_def)
  have "index_sector ?g sbs name ids =
          ?g[sbs := Object (index_props (map (\<lambda>v. (to_key H [] v, name)) ids)
                     (AList.update (to_key H [] v) (Data (JStr name)) ps))]"
    using Cons.IH[OF u _ o] Cons.prems(2,4) by (simp add: length_obj_set)
  then show ?case by (simp add: g' index_props_def)
qed

lemma build_sectorBySystem_spec:
  assumes "wf_heap H" "unchanged {} H g" "length H \<le> sbs" "sbs < length g"
    and "the_obj g sbs = Object ps" "\<forall>(name, lst)\<in>set es. val_ok (length H) lst"
    and "build_sectorBySystem g sbs es = Inr g'"
  shows "g' = g[sbs := Object (index_props (sector_pairs H es) ps)]"
    and "\<forall>(name, lst)\<in>set es. forEach_target H lst = Inr (members H lst)"
proof -
  have "g' = g[sbs := Object (index_props (sector_pairs H es) ps)] \<and>
        (\<forall>(name, lst)\<in>set es. forEach_target H lst = Inr (members H lst))"
    using assms(2,4,5,6,7)
  proof (induction es arbitrary: g ps)
    case Nil
    then show ?case
      by (simp add: index_props_def sector_pairs_def list_update_the_obj)
  next
    case (Cons e es)
    obtain name lst where e: "e = (name, lst)" by (cases e)
    from Cons.prems(4) e have lst: "val_ok (length H) lst" by simp
    have ft: "forEach_target g lst = forEach_target H lst"
      using forEach_target_unchanged[OF Cons.prems(1)] val_ok_fixed[OF lst] by simp
    from Cons.prems(5) e obtain ids where ids: "forEach_target g lst = Inr ids"
      and rest: "build_sectorBySystem (index_sector g sbs name ids) sbs es = Inr g'"
      by (auto split: sum.splits)
    from ids ft have m: "members H lst = ids" "forEach_target H lst = Inr ids"
      by (simp_all add: members_def)
    have okids: "\<forall>v\<in>set ids. val_ok (length H) v"
      using wf_forEach_target[OF assms(1) m(2)] .
    let ?ps = "index_props (map (\<lambda>v. (to_key H [] v, name)) ids) ps"
    have isec: "index_sector g sbs name ids = g[sbs := Object ?ps]"
      using index_sector_spec[OF assms(1) Cons.prems(1) assms(3) Cons.prems(2,3) okids] .
    have u: "unchanged {} H (g[sbs := Object ?ps])"
      using Cons.prems(1) assms(3) by (auto simp: unchanged_def)
    have o: "the_obj (g[sbs := Object ?ps]) sbs = Object ?ps"
      using Cons.prems(2) by (simp add: the_obj_def)
    have "g' = (g[sbs := Object ?ps])[sbs := Object (index_props (sector_pairs H es) ?ps)] \<and>
          (\<forall>(name, lst)\<in>set es. forEach_target H lst = Inr (members H lst))"
      using Cons.IH[OF u _ o] Cons.prems(2,4) rest unfolding isec by simp
    then show ?case
      using m by (simp add: e sector_pairs_def index_props_append)
  qed
  then show "g' = g[sbs := Object (index_props (sector_pairs H es) ps)]"
    and "\<forall>(name, lst)\<in>set es. forEach_target H lst = Inr (members H lst)" by auto
qed

lemma or_empty_cases:
  assumes "or_empty h v = (b, h1)"
  shows "(truthy v \<and> b = v \<and> h1 = h) \<or> (\<not> truthy v \<and> b = JRef (length h) \<and> h1 = h @ [Object []])"
  using assms by (auto simp: or_empty_def alloc_def split: if_splits)

lemma or_empty_truthy: "or_empty h v = (b, h1) \<Longrightarrow> truthy b"
  by (auto dest: or_empty_cases)

lemma or_empty_own_field:
  "or_empty h v = (b, h1) \<Longrightarrow> fixed_in h A v \<Longrightarrow> prop_get h1 b k = own_field h v k"
  by (auto dest!: or_empty_cases simp: own_field_def the_obj_def)

lemma or_empty_entries:
  "or_empty h v = (b, h1) \<Longrightarrow> Object_entries h1 b = (if truthy v then Object_entries h v else Inr [])"
  by (auto dest!: or_empty_cases simp: the_obj_def)

lemma resolve_own_or_table:
  "truthy src \<Longrightarrow> resolve h own src sid = own_or_table own (prop_get h src sid)"
  by (auto simp: resolve_def own_or_table_def split: sum.splits)


lemma mergeSystem_Inr:
  assumes "mergeSystem E h tr pix grid sbs sid base = (Inr v, h2, tr2)"
  obtains c0 g0 s0 c g s es where
    "prop_get h base ''coords'' = Inr c0" "resolve h c0 pix sid = Inr c"
    "prop_get h base ''grid'' = Inr g0" "resolve h g0 grid sid = Inr g"
    "prop_get h base ''sector'' = Inr s0" "resolve h s0 (JRef sbs) sid = Inr s"
    "Object_entries h base = Inr es" "v = JRef (length h)"
    "h2 = h @ [Object (data_props (assign_all [] (es @ [(''coords'', c), (''grid'', g), (''sector'', s)])))]"
  using assms
  by (auto simp: mergeSystem_def Object_assign_def alloc_def Let_def split: sum.splits prod.splits)

lemma mergeSystem_Inl:
  "mergeSystem E h tr pix grid sbs sid base = (Inl e, h2, tr2) \<Longrightarrow> h2 = h"
  by (auto simp: mergeSystem_def Object_assign_def alloc_def Let_def split: sum.splits prod.splits)

lemma normalizeSystem_cases:
  assumes "normalizeSystem E pix grid sbs ns er (sid, sys) (h, tr) = (h', tr')"
  obtains (ok) base h1 v h2 tr2 where
      "or_empty h sys = (base, h1)"
      "mergeSystem E h1 tr pix grid sbs sid base = (Inr v, h2, tr2)"
      "h' = obj_set h2 ns sid v"
  | (fail) base h1 err tr2 where
      "or_empty h sys = (base, h1)"
      "mergeSystem E h1 tr pix grid sbs sid base = (Inl err, h1, tr2)"
      "h' = array_push (h1 @ [error_record sid err]) er (JRef (length h1))"
proof -
  obtain base h1 where oe: "or_empty h sys = (base, h1)" by (cases "or_empty h sys")
  obtain res h2 tr2 where m: "mergeSystem E h1 tr pix grid sbs sid base = (res, h2, tr2)"
    by (cases "mergeSystem E h1 tr pix grid sbs sid base") auto
  show thesis
  proof (cases res)
    case (Inr v)
    with assms oe m have "h' = obj_set h2 ns sid v"
      by (simp add: normalizeSystem_def)
    with oe m Inr show ?thesis by (intro ok) auto
  next
    case (Inl err)
    with m have h2: "h2 = h1" by (auto dest: mergeSystem_Inl)
    with assms oe m Inl have "h' = array_push (h1 @ [error_record sid err]) er (JRef (length h1))"
      by (simp add: normalizeSystem_def alloc_def error_record_def)
    with oe m Inl h2 show ?thesis by (intro fail) auto
  qed
qed

lemma tables_fixed_unchanged:
  "tables_fixed h A pix grid sbs \<Longrightarrow> unchanged A h h' \<Longrightarrow> tables_fixed h' A pix grid sbs"
  unfolding tables_fixed_def by (blast intro: fixed_in_unchanged)

lemma fixed_in_mono: "fixed_in h A v \<Longrightarrow> B \<subseteq> A \<Longrightarrow> fixed_in h B v"
  by (auto simp: fixed_in_def)

lemma own_field_unchanged:
  "unchanged A h h' \<Longrightarrow> fixed_in h A v \<Longrightarrow> own_field h' v k = own_field h v k"
  by (simp add: own_field_def prop_get_unchanged)

lemma own_entries_of_unchanged:
  "unchanged A h h' \<Longrightarrow> fixed_in h A v \<Longrightarrow> own_entries_of h' v = own_entries_of h v"
  by (simp add: own_entries_of_def Object_entries_unchanged)

lemma merge_result_unchanged:
  assumes "unchanged A h h'" "fixed_in h A sys" "tables_fixed h A pix grid sbs"
  shows "merge_result h' pix grid (JRef sbs) sid sys = merge_result h pix grid (JRef sbs) sid sys"
proof -
  from assms(3) have f: "fixed_in h A pix" "fixed_in h A grid" "fixed_in h A (JRef sbs)"
    by (simp_all add: tables_fixed_def)
  show ?thesis
    unfolding merge_result_def
    by (simp only: own_field_unchanged[OF assms(1,2)] own_entries_of_unchanged[OF assms(1,2)]
        prop_get_unchanged[OF assms(1) f(1)] prop_get_unchanged[OF assms(1) f(2)]
        prop_get_unchanged[OF assms(1) f(3)])
qed

lemma mergeSystem_spec:
  assumes oe: "or_empty h sys = (base, h1)" and f: "fixed_in h {} sys"
    and t: "tables_fixed h {} pix grid sbs"
  shows "\<exists>tr2. mergeSystem E h1 tr pix grid sbs sid base =
           (case merge_result h pix grid (JRef sbs) sid sys of
              Inl e \<Rightarrow> (Inl e, h1, tr2)
            | Inr ps \<Rightarrow> (Inr (JRef (length h1)), h1 @ [Object (data_props ps)], tr2))"
proof -
  from oe have u1: "unchanged {} h h1"
    by (auto dest!: or_empty_cases simp: unchanged_refl unchanged_append)
  from t have tt: "fixed_in h {} pix" "truthy pix" "fixed_in h {} grid" "truthy grid"
      "fixed_in h {} (JRef sbs)" "truthy (JRef sbs)"
    by (simp_all add: tables_fixed_def)
  have own: "prop_get h1 base k = own_field h sys k" for k
    using or_empty_own_field[OF oe f] .
  have ent: "Object_entries h1 base = own_entries_of h sys"
    using or_empty_entries[OF oe] by (simp add: own_entries_of_def)
  have r: "resolve h1 own t sid = own_or_table own (prop_get h t sid)"
    if "fixed_in h {} t" "truthy t" for own t
    using prop_get_unchanged[OF u1 that(1)] that(2) by (simp add: resolve_own_or_table)
  show ?thesis
    unfolding mergeSystem_def merge_result_def Object_assign_def alloc_def Let_def
    by (simp only: own ent r[OF tt(1,2)] r[OF tt(3,4)] r[OF tt(5,6)])
       (auto split: sum.splits)
qed

lemma step_spec:
  assumes inv: "loop_inv h ns er" and f: "fixed_in h {ns, er} sys"
    and t: "tables_fixed h {ns, er} pix grid sbs"
    and ns: "the_obj h ns = Object nps" and er: "the_obj h er = Array evs"
    and step: "normalizeSystem E pix grid sbs ns er (sid, sys) (h, tr) = (h', tr')"
  shows "loop_inv h' ns er" "unchanged {ns, er} h h'"
    "case merge_result h pix grid (JRef sbs) sid sys of
       Inr ps \<Rightarrow> (\<exists>a. length h \<le> a \<and> a < length h' \<and> the_obj h' a = Object (data_props ps) \<and>
                    the_obj h' ns = Object (AList.update sid (Data (JRef a)) nps) \<and>
                    the_obj h' er = Array evs)
     | Inl err \<Rightarrow> (\<exists>r. length h \<le> r \<and> r < length h' \<and> the_obj h' r = error_record sid err \<and>
                    the_obj h' ns = Object nps \<and> the_obj h' er = Array (evs @ [JRef r]))"
proof -
  from inv have lt: "ns < length h" "er < length h" "ns \<noteq> er" by (auto simp: loop_inv_def)
  obtain base h1 where oe: "or_empty h sys = (base, h1)" by (cases "or_empty h sys")
  from oe have len1: "length h \<le> length h1" and u1: "unchanged {} h h1"
    by (auto dest!: or_empty_cases simp: unchanged_refl unchanged_append)
  from f have f0: "fixed_in h {} sys" by (rule fixed_in_mono) simp
  from t have t0: "tables_fixed h {} pix grid sbs"
    by (auto simp: tables_fixed_def intro: fixed_in_mono)
  from mergeSystem_spec[OF oe f0 t0, of E tr sid] obtain tr2 where
    m: "mergeSystem E h1 tr pix grid sbs sid base =
           (case merge_result h pix grid (JRef sbs) sid sys of
              Inl e \<Rightarrow> (Inl e, h1, tr2)
            | Inr ps \<Rightarrow> (Inr (JRef (length h1)), h1 @ [Object (data_props ps)], tr2))" by blast
  have ns1: "the_obj h1 ns = Object nps" "the_obj h1 er = Array evs" "ns < length h1" "er < length h1"
    using unchanged_the_obj[OF u1] lt ns er len1 by auto
  have main: "loop_inv h' ns er \<and> unchanged {ns, er} h h' \<and>
    (case merge_result h pix grid (JRef sbs) sid sys of
       Inr ps \<Rightarrow> (\<exists>a. length h \<le> a \<and> a < length h' \<and> the_obj h' a = Object (data_props ps) \<and>
                    the_obj h' ns = Object (AList.update sid (Data (JRef a)) nps) \<and>
                    the_obj h' er = Array evs)
     | Inl err \<Rightarrow> (\<exists>r. length h \<le> r \<and> r < length h' \<and> the_obj h' r = error_record sid err \<and>
                    the_obj h' ns = Object nps \<and> the_obj h' er = Array (evs @ [JRef r])))"
  proof (cases "merge_result h pix grid (JRef sbs) sid sys")
    case (Inr ps)
    let ?h2 = "h1 @ [Object (data_props ps)]"
    from step oe m Inr have h': "h' = obj_set ?h2 ns sid (JRef (length h1))"
      by (simp add: normalizeSystem_def)
    have u2: "unchanged {ns, er} h ?h2"
      using unchanged_trans[OF u1 unchanged_append] by (rule unchanged_mono) simp
    have u: "unchanged {ns, er} h h'"
      unfolding h' by (rule unchanged_trans[OF u2]) (simp add: unchanged_obj_set)
    have nsh': "the_obj h' ns = Object (AList.update sid (Data (JRef (length h1))) nps)"
      unfolding h' using ns1 by (intro the_obj_obj_set_same) (simp_all add: the_obj_append)
    have erh': "the_obj h' er = Array evs"
      unfolding h' using ns1 lt by (simp add: the_obj_obj_set_other the_obj_append)
    have ob: "the_obj h' (length h1) = Object (data_props ps)"
      unfolding h' using ns1 by (subst the_obj_obj_set_other) (auto simp: the_obj_new)
    have li: "loop_inv h' ns er"
      using nsh' erh' lt u by (auto simp: loop_inv_def unchanged_def)
    have "length h1 < length h'" by (simp add: h' length_obj_set)
    with li u nsh' erh' ob len1 Inr show ?thesis by auto
  next
    case (Inl err)
    let ?h2 = "h1 @ [error_record sid err]"
    from step oe m Inl have h': "h' = array_push ?h2 er (JRef (length h1))"
      by (simp add: normalizeSystem_def alloc_def error_record_def)
    have u2: "unchanged {ns, er} h ?h2"
      using unchanged_trans[OF u1 unchanged_append] by (rule unchanged_mono) simp
    have u: "unchanged {ns, er} h h'"
      unfolding h' by (rule unchanged_trans[OF u2]) (simp add: unchanged_array_push)
    have erh': "the_obj h' er = Array (evs @ [JRef (length h1)])"
      unfolding h' using ns1 by (intro the_obj_array_push_same) (simp_all add: the_obj_append)
    have nsh': "the_obj h' ns = Object nps"
      unfolding h' using ns1 lt by (simp add: the_obj_array_push_other the_obj_append)
    have ob: "the_obj h' (length h1) = error_record sid err"
      unfolding h' using ns1 by (subst the_obj_array_push_other) (auto simp: the_obj_new)
    have li: "loop_inv h' ns er"
      using nsh' erh' lt u by (auto simp: loop_inv_def unchanged_def)
    have "length h1 < length h'" by (simp add: h' length_array_push)
    with li u nsh' erh' ob len1 Inl show ?thesis by auto
  qed
  then show "loop_inv h' ns er" "unchanged {ns, er} h h'"
    "case merge_result h pix grid (JRef sbs) sid sys of
       Inr ps \<Rightarrow> (\<exists>a. length h \<le> a \<and> a < length h' \<and> the_obj h' a = Object (data_props ps) \<and>
                    the_obj h' ns = Object (AList.update sid (Data (JRef a)) nps) \<and>
                    the_obj h' er = Array evs)
     | Inl err \<Rightarrow> (\<exists>r. length h \<le> r \<and> r < length h' \<and> the_obj h' r = error_record sid err \<and>
                    the_obj h' ns = Object nps \<and> the_obj h' er = Array (evs @ [JRef r]))"
    by blast+
qed

lemma fold_spec:
  assumes "loop_inv h ns er" "tables_fixed h {ns, er} pix grid sbs"
    and "\<forall>e \<in> set es. fixed_in h {ns, er} (snd e)" "distinct (map fst es)"
    and "the_obj h ns = Object nps" "the_obj h er = Array evs"
    and "fold (normalizeSystem E pix grid sbs ns er) es (h, tr) = (h', tr')"
  shows "loop_inv h' ns er \<and> unchanged {ns, er} h h' \<and>
     (\<exists>nps' evs'. the_obj h' ns = Object nps' \<and> the_obj h' er = Array (evs @ evs') \<and>
        (\<forall>k. k \<notin> fst ` set es \<longrightarrow> map_of nps' k = map_of nps k) \<and>
        (\<forall>e \<in> set es. entry_done h' (length h) nps nps' pix grid (JRef sbs) e) \<and>
        list_all2 (error_logged h' (length h)) evs' (failures h' pix grid (JRef sbs) es))"
  using assms
proof (induction es arbitrary: h tr nps evs)
  case Nil
  then show ?case by (simp add: unchanged_refl failures_def)
next
  case (Cons e es)
  obtain sid sys where e: "e = (sid, sys)" by (cases e)
  obtain hm trm where st: "normalizeSystem E pix grid sbs ns er (sid, sys) (h, tr) = (hm, trm)"
    by (cases "normalizeSystem E pix grid sbs ns er (sid, sys) (h, tr)")
  from Cons.prems(7) e st
  have rest: "fold (normalizeSystem E pix grid sbs ns er) es (hm, trm) = (h', tr')" by simp
  from Cons.prems(1) have lt: "ns < length h" "er < length h" by (auto simp: loop_inv_def)
  from Cons.prems(3) e have fsys: "fixed_in h {ns, er} sys" by simp
  note sp = step_spec[OF Cons.prems(1) fsys Cons.prems(2,5,6) st]
  from sp(2) have lenm: "length h \<le> length hm" by (simp add: unchanged_def)
  have tm: "tables_fixed hm {ns, er} pix grid sbs"
    using tables_fixed_unchanged[OF Cons.prems(2) sp(2)] .
  have fm: "\<forall>e \<in> set es. fixed_in hm {ns, er} (snd e)"
    using Cons.prems(3) fixed_in_unchanged[OF sp(2)] by auto
  from Cons.prems(4) e have d: "distinct (map fst es)" "sid \<notin> fst ` set es" by auto
  show ?case
  proof (cases "merge_result h pix grid (JRef sbs) sid sys")
    case (Inr ps)
    with sp(3) obtain a where a: "length h \<le> a" "a < length hm"
      "the_obj hm a = Object (data_props ps)"
      "the_obj hm ns = Object (AList.update sid (Data (JRef a)) nps)"
      "the_obj hm er = Array evs" by auto
    from Cons.IH[OF sp(1) tm fm d(1) a(4,5) rest] obtain nps' evs' where ih:
      "loop_inv h' ns er" "unchanged {ns, er} hm h'"
      "the_obj h' ns = Object nps'" "the_obj h' er = Array (evs @ evs')"
      "\<forall>k. k \<notin> fst ` set es \<longrightarrow> map_of nps' k = map_of (AList.update sid (Data (JRef a)) nps) k"
      "\<forall>e \<in> set es. entry_done h' (length hm) (AList.update sid (Data (JRef a)) nps) nps' pix grid (JRef sbs) e"
      "list_all2 (error_logged h' (length hm)) evs' (failures h' pix grid (JRef sbs) es)"
      by blast
    have u: "unchanged {ns, er} h h'" by (rule unchanged_trans[OF sp(2) ih(2)])
    have mr: "merge_result h' pix grid (JRef sbs) sid sys = Inr ps"
      using merge_result_unchanged[OF u fsys Cons.prems(2)] Inr by simp
    have keys: "\<forall>k. k \<notin> fst ` set (e # es) \<longrightarrow> map_of nps' k = map_of nps k"
      using ih(5) by (auto simp: e update_conv')
    have oba: "the_obj h' a = Object (data_props ps)"
      using unchanged_the_obj[OF ih(2) a(2)] a(1,3) lt by auto
    have hd: "entry_done h' (length h) nps nps' pix grid (JRef sbs) e"
      unfolding entry_done_def using mr a(1,2) ih(2,5) d(2) oba
      by (auto simp: e update_conv' unchanged_def)
    have tl: "entry_done h' (length h) nps nps' pix grid (JRef sbs) e'" if "e' \<in> set es" for e'
    proof -
      from that d(2) have ne: "fst e' \<noteq> sid" by auto
      from ih(6) that have "entry_done h' (length hm) (AList.update sid (Data (JRef a)) nps) nps' pix grid (JRef sbs) e'"
        by blast
      then show ?thesis
        unfolding entry_done_def using lenm ne
        by (auto simp: update_conv' split: sum.splits)
    qed
    have fl: "failures h' pix grid (JRef sbs) (e # es) = failures h' pix grid (JRef sbs) es"
      by (simp add: failures_def e mr)
    have el: "list_all2 (error_logged h' (length h)) evs' (failures h' pix grid (JRef sbs) es)"
      using lenm by (intro list_all2_mono[OF ih(7)]) (auto simp: error_logged_def)
    from ih(1) u ih(3,4) keys hd tl el fl show ?thesis by auto
  next
    case (Inl err)
    with sp(3) obtain r where r: "length h \<le> r" "r < length hm"
      "the_obj hm r = error_record sid err"
      "the_obj hm ns = Object nps"
      "the_obj hm er = Array (evs @ [JRef r])" by auto
    from Cons.IH[OF sp(1) tm fm d(1) r(4,5) rest] obtain nps' evs' where ih:
      "loop_inv h' ns er" "unchanged {ns, er} hm h'"
      "the_obj h' ns = Object nps'" "the_obj h' er = Array ((evs @ [JRef r]) @ evs')"
      "\<forall>k. k \<notin> fst ` set es \<longrightarrow> map_of nps' k = map_of nps k"
      "\<forall>e \<in> set es. entry_done h' (length hm) nps nps' pix grid (JRef sbs) e"
      "list_all2 (error_logged h' (length hm)) evs' (failures h' pix grid (JRef sbs) es)"
      by blast
    have u: "unchanged {ns, er} h h'" by (rule unchanged_trans[OF sp(2) ih(2)])
    have mr: "merge_result h' pix grid (JRef sbs) sid sys = Inl err"
      using merge_result_unchanged[OF u fsys Cons.prems(2)] Inl by simp
    have keys: "\<forall>k. k \<notin> fst ` set (e # es) \<longrightarrow> map_of nps' k = map_of nps k"
      using ih(5) by (auto simp: e)
    have obr: "the_obj h' r = error_record sid err"
      using unchanged_the_obj[OF ih(2) r(2)] r(1,3) lt by auto
    have hd: "entry_done h' (length h) nps nps' pix grid (JRef sbs) e"
      unfolding entry_done_def using mr ih(5) d(2) by (auto simp: e)
    have tl: "entry_done h' (length h) nps nps' pix grid (JRef sbs) e'" if "e' \<in> set es" for e'
    proof -
      from ih(6) that have "entry_done h' (length hm) nps nps' pix grid (JRef sbs) e'"
        by blast
      then show ?thesis
        unfolding entry_done_def using lenm by (auto split: sum.splits)
    qed
    have fl: "failures h' pix grid (JRef sbs) (e # es) = (sid, err) # failures h' pix grid (JRef sbs) es"
      by (simp add: failures_def e mr)
    have el: "list_all2 (error_logged h' (length h)) evs' (failures h' pix grid (JRef sbs) es)"
      using lenm by (intro list_all2_mono[OF ih(7)]) (auto simp: error_logged_def)
    have elr: "error_logged h' (length h) (JRef r) (sid, err)"
      using r(1,2) obr ih(2) by (auto simp: error_logged_def unchanged_def)
    have er': "the_obj h' er = Array (evs @ (JRef r # evs'))" using ih(4) by simp
    have el': "list_all2 (error_logged h' (length h)) (JRef r # evs')
        (failures h' pix grid (JRef sbs) (e # es))"
      using el elr fl by simp
    have all: "\<forall>e' \<in> set (e # es). entry_done h' (length h) nps nps' pix grid (JRef sbs) e'"
      using hd tl by auto
    have "\<exists>nps' evs'. the_obj h' ns = Object nps' \<and> the_obj h' er = Array (evs @ evs') \<and>
        (\<forall>k. k \<notin> fst ` set (e # es) \<longrightarrow> map_of nps' k = map_of nps k) \<and>
        (\<forall>e' \<in> set (e # es). entry_done h' (length h) nps nps' pix grid (JRef sbs) e') \<and>
        list_all2 (error_logged h' (length h)) evs' (failures h' pix grid (JRef sbs) (e # es))"
      using ih(3) er' keys all el' by (intro exI[of _ nps'] exI[of _ "JRef r # evs'"]) blast
    with ih(1) u show ?thesis by blast
  qed
qed

lemma read_sources_Inr:
  assumes "read_sources h raw = Inr ((s, p, g, c), h4)"
  obtains sv h1 pv pv' h2 gv h3 cv where
    "prop_get h raw ''systems'' = Inr sv" "or_empty h sv = (s, h1)"
    "prop_get h1 raw ''system_pixels'' = Inr pv"
    "if truthy pv then pv' = pv else prop_get h1 raw ''endpoint_pixels'' = Inr pv'"
    "or_empty h1 pv' = (p, h2)"
    "prop_get h2 raw ''system_grid'' = Inr gv" "or_empty h2 gv = (g, h3)"
    "prop_get h3 raw ''sectors'' = Inr cv" "or_empty h3 cv = (c, h4)"
  using assms unfolding read_sources_def
  by (auto split: sum.splits prod.splits if_splits)

lemma or_empty_wf:
  assumes "wf_heap h" "val_ok (length h) v" "or_empty h v = (b, h1)"
  shows "wf_heap h1" "val_ok (length h1) b" "truthy b" "unchanged {} h h1"
  using assms
  by (auto dest!: or_empty_cases simp: wf_heap_append_empty unchanged_refl unchanged_append)

lemma unchanged_length: "unchanged A h h' \<Longrightarrow> length h \<le> length h'"
  by (simp add: unchanged_def)

lemma read_sources_wf:
  assumes wf: "wf_heap h" and r: "r < length h"
    and rs: "read_sources h (JRef r) = Inr ((s, p, g, c), h4)"
  shows "wf_heap h4" "unchanged {} h h4"
    "val_ok (length h4) s" "val_ok (length h4) p" "val_ok (length h4) g" "val_ok (length h4) c"
    "truthy s" "truthy p" "truthy g" "truthy c"
proof -
  from rs obtain sv h1 pv pv' h2 gv h3 cv where x:
    "prop_get h (JRef r) ''systems'' = Inr sv" "or_empty h sv = (s, h1)"
    "prop_get h1 (JRef r) ''system_pixels'' = Inr pv"
    "if truthy pv then pv' = pv else prop_get h1 (JRef r) ''endpoint_pixels'' = Inr pv'"
    "or_empty h1 pv' = (p, h2)"
    "prop_get h2 (JRef r) ''system_grid'' = Inr gv" "or_empty h2 gv = (g, h3)"
    "prop_get h3 (JRef r) ''sectors'' = Inr cv" "or_empty h3 cv = (c, h4)"
    by (rule read_sources_Inr)
  note a = or_empty_wf[OF wf wf_prop_get[OF wf x(1)] x(2)]
  have pv': "prop_get h1 (JRef r) ''system_pixels'' = Inr pv' \<or> prop_get h1 (JRef r) ''endpoint_pixels'' = Inr pv'"
    using x(3,4) by (auto split: if_splits)
  then have "val_ok (length h1) pv'" using wf_prop_get[OF a(1)] by blast
  note b = or_empty_wf[OF a(1) this x(5)]
  note c = or_empty_wf[OF b(1) wf_prop_get[OF b(1) x(6)] x(7)]
  note d = or_empty_wf[OF c(1) wf_prop_get[OF c(1) x(8)] x(9)]
  show "wf_heap h4" by (rule d(1))
  show "unchanged {} h h4"
    by (rule unchanged_trans[OF unchanged_trans[OF unchanged_trans[OF a(4) b(4)] c(4)] d(4)])
  note l = unchanged_length[OF b(4)] unchanged_length[OF c(4)] unchanged_length[OF d(4)]
  show "val_ok (length h4) s" using a(2) l by (auto intro: val_ok_mono)
  show "val_ok (length h4) p" using b(2) l by (auto intro: val_ok_mono)
  show "val_ok (length h4) g" using c(2) l by (auto intro: val_ok_mono)
  show "val_ok (length h4) c" by (rule d(2))
  show "truthy s" "truthy p" "truthy g" "truthy c" by (rule a(3) b(3) c(3) d(3))+
qed

lemma normalizeObject_Inr:
  assumes "normalizeObject E h tr raw = (Inr l, h', tr')"
  obtains systemsSrc pixelsSrc gridSrc sectorsSrc h1 sectorEntries h3 systemEntries h6 tr6 res h7 where
    "read_sources h raw = Inr ((systemsSrc, pixelsSrc, gridSrc, sectorsSrc), h1)"
    "Object_entries (h1 @ [Object []]) sectorsSrc = Inr sectorEntries"
    "build_sectorBySystem (h1 @ [Object []]) (length h1) sectorEntries = Inr h3"
    "Object_entries (h3 @ [Object [], Array []]) systemsSrc = Inr systemEntries"
    "fold (normalizeSystem E pixelsSrc gridSrc (length h1) (length h3) (Suc (length h3)))
        systemEntries (h3 @ [Object [], Array []], tr) = (h6, tr6)"
    "Object_assign h6 raw [(''systems'', JRef (length h3))] = Inr (res, h7)"
    "l = \<lparr>result = JRef res, normalizedSystems = length h3, errors = Suc (length h3),
          sectorBySystem = length h1\<rparr>"
    "h' = (if 0 < errors_length h7 (Suc (length h3)) \<and> Logger E
           then obj_set h7 res ''_normalizationErrors'' (JRef (Suc (length h3))) else h7)"
  using assms unfolding normalizeObject_def alloc_def
  by (auto split: sum.splits prod.splits if_splits)

lemma unchanged_below:
  assumes "unchanged A h h'" "\<forall>a\<in>A. length h \<le> a" "a < length h"
  shows "the_obj h' a = the_obj h a"
proof -
  from assms(2,3) have "a \<notin> A" by (meson not_less)
  with assms(1,3) show ?thesis by (rule unchanged_the_obj)
qed

lemma members_unchanged:
  "unchanged A h h' \<Longrightarrow> fixed_in h A v \<Longrightarrow> members h' v = members h v"
  by (simp add: members_def forEach_target_unchanged)

lemma sector_pairs_unchanged:
  assumes "wf_heap h" "unchanged {} h h'" "\<forall>(name, lst)\<in>set es. val_ok (length h) lst"
  shows "sector_pairs h' es = sector_pairs h es"
proof -
  have "map (\<lambda>sysId. (to_key h' [] sysId, name)) (members h' lst)
      = map (\<lambda>sysId. (to_key h [] sysId, name)) (members h lst)"
    if "(name, lst) \<in> set es" for name lst
  proof -
    from that assms(3) have ok: "val_ok (length h) lst" by auto
    then have m: "members h' lst = members h lst"
      using members_unchanged[OF assms(2)] val_ok_fixed by simp
    have "\<forall>w\<in>set (members h lst). val_ok (length h) w"
    proof (cases "forEach_target h lst")
      case (Inr ids)
      with wf_forEach_target[OF assms(1) Inr] show ?thesis by (simp add: members_def)
    qed (simp add: members_def)
    then show ?thesis
      unfolding m using to_key_unchanged[OF assms(1,2)] by (intro map_cong) auto
  qed
  then show ?thesis unfolding sector_pairs_def
    by (intro arg_cong[where f=concat] map_cong) auto
qed

lemma entry_done_unchanged:
  assumes "entry_done h n nps nps' pix grid (JRef sbs) e" "unchanged A h h'"
    and "\<forall>a\<in>A. length h \<le> a" "fixed_in h A (snd e)" "tables_fixed h A pix grid sbs"
  shows "entry_done h' n nps nps' pix grid (JRef sbs) e"
proof -
  have len: "length h \<le> length h'" using assms(2) by (rule unchanged_length)
  have "the_obj h' a = the_obj h a" if "a < length h" for a
    using unchanged_below[OF assms(2,3) that] .
  with assms(1) len show ?thesis
    unfolding entry_done_def merge_result_unchanged[OF assms(2,4,5)]
    by (auto split: sum.splits)
qed

lemma error_logged_unchanged:
  assumes "error_logged h n v f" "unchanged A h h'" "\<forall>a\<in>A. length h \<le> a"
  shows "error_logged h' n v f"
proof -
  have len: "length h \<le> length h'" using assms(2) by (rule unchanged_length)
  have "the_obj h' a = the_obj h a" if "a < length h" for a
    using unchanged_below[OF assms(2,3) that] .
  with assms(1) len show ?thesis
    unfolding error_logged_def by auto
qed

lemma failures_unchanged:
  assumes "unchanged A h h'" "\<forall>e\<in>set es. fixed_in h A (snd e)" "tables_fixed h A pix grid sbs"
  shows "failures h' pix grid (JRef sbs) es = failures h pix grid (JRef sbs) es"
  unfolding failures_def using assms(2) merge_result_unchanged[OF assms(1) _ assms(3)]
  by (intro arg_cong[where f=concat] map_cong) auto

lemma unchanged_fresh:
  "unchanged A h h' \<Longrightarrow> \<forall>a\<in>A. length h0 \<le> a \<Longrightarrow> unchanged {} h0 h \<Longrightarrow> unchanged {} h0 h'"
proof -
  assume a: "unchanged A h h'" "\<forall>a\<in>A. length h0 \<le> a" "unchanged {} h0 h"
  have "h' ! x = h0 ! x" if "x < length h0" for x
  proof -
    from a(2) that have "x \<notin> A" by (meson not_less)
    moreover from a(3) that have "x < length h" "h ! x = h0 ! x" by (auto simp: unchanged_def)
    ultimately show ?thesis using a(1) by (auto simp: unchanged_def)
  qed
  with a(1,3) show ?thesis by (auto simp: unchanged_def)
qed

lemma map_of_assign_all_snoc1:
  "map_of (assign_all ps (es @ [(k, v)])) = (map_of (assign_all ps es))(k \<mapsto> v)"
  by (simp add: assign_all_def update_conv')

lemma Object_assign_Inr:
  assumes "Object_assign h src lit = Inr (a, h')"
  obtains es where "Object_entries h src = Inr es" "a = length h"
    "h' = h @ [Object (data_props (assign_all [] (es @ lit)))]"
  using assms by (auto simp: Object_assign_def alloc_def split: sum.splits)

lemma normalizeObject_summary:
  assumes wf: "wf_heap h" and r: "r < length h"
    and run: "normalizeObject E h tr (JRef r) = (Inr l, h', tr')"
    and rs: "read_sources h (JRef r) = Inr ((S, P, G, C), h1)"
  obtains ces ses nps evs rps res where
    "run_facts E h h1 h' r l S P G C ces ses nps evs rps res"
proof -
  note w = read_sources_wf[OF wf r rs]
  let ?n = "length h1"
  let ?h2 = "h1 @ [Object []]"
  from normalizeObject_Inr[OF run] obtain S' P' G' C' h1' ces h3 ses h6 tr6 res h7 where y:
    "read_sources h (JRef r) = Inr ((S', P', G', C'), h1')"
    "Object_entries (h1' @ [Object []]) C' = Inr ces"
    "build_sectorBySystem (h1' @ [Object []]) (length h1') ces = Inr h3"
    "Object_entries (h3 @ [Object [], Array []]) S' = Inr ses"
    "fold (normalizeSystem E P' G' (length h1') (length h3) (Suc (length h3))) ses
        (h3 @ [Object [], Array []], tr) = (h6, tr6)"
    "Object_assign h6 (JRef r) [(''systems'', JRef (length h3))] = Inr (res, h7)"
    "l = \<lparr>result = JRef res, normalizedSystems = length h3, errors = Suc (length h3),
          sectorBySystem = length h1'\<rparr>"
    "h' = (if 0 < errors_length h7 (Suc (length h3)) \<and> Logger E
           then obj_set h7 res ''_normalizationErrors'' (JRef (Suc (length h3))) else h7)"
    by blast
  from y(1) rs have eq: "S' = S" "P' = P" "G' = G" "C' = C" "h1' = h1" by simp_all
  note x = y(2-8)[unfolded eq]
  have fx: "fixed_in h1 {} v" if "val_ok ?n v" for v
    using val_ok_fixed[OF that] by simp
  have u12: "unchanged {} h1 ?h2" by (rule unchanged_append)
  have ces1: "Object_entries h1 C = Inr ces"
    using Object_entries_unchanged[OF u12 fx[OF w(6)]] x(1) by simp
  have okc: "\<forall>(name, lst)\<in>set ces. val_ok ?n lst"
    using wf_Object_entries(2)[OF w(1) ces1] .
  let ?idx = "index_props (sector_pairs h1 ces) []"
  have b: "h3 = ?h2[?n := Object ?idx]"
    "\<forall>(name, lst)\<in>set ces. forEach_target h1 lst = Inr (members h1 lst)"
    using build_sectorBySystem_spec[OF w(1) u12 _ _ _ okc x(2), of "[]"]
    by (simp_all add: the_obj_new)
  have h3: "h3 = h1 @ [Object ?idx]" unfolding b(1) by simp
  have len3: "length h3 = ?n + 1" by (simp add: h3)
  let ?ns = "?n + 1" and ?er = "?n + 2"
  let ?h5 = "h3 @ [Object [], Array []]"
  have h5: "?h5 = h1 @ [Object ?idx, Object [], Array []]" by (simp add: h3)
  have u15: "unchanged {} h1 ?h5" unfolding h5 by (rule unchanged_append)
  have ses1: "Object_entries h1 S = Inr ses"
    using Object_entries_unchanged[OF u15 fx[OF w(3)]] x(3) by simp
  have oks: "\<forall>e\<in>set ses. val_ok ?n (snd e)" and ds: "distinct (map fst ses)"
    using wf_Object_entries[OF w(1) ses1] by auto
  have obj5: "the_obj ?h5 ?n = Object ?idx" "the_obj ?h5 ?ns = Object []"
    "the_obj ?h5 ?er = Array []" "length ?h5 = ?n + 3"
    unfolding h5 by (simp_all add: the_obj_def nth_append)
  have inv5: "loop_inv ?h5 ?ns ?er"
    using obj5 by (simp add: loop_inv_def)
  have fx5: "fixed_in ?h5 {?ns, ?er} v" if "val_ok ?n v" for v
    using that obj5(4) by (cases v) auto
  have t5: "tables_fixed ?h5 {?ns, ?er} P G ?n"
    using w(8,9) fx5[OF w(4)] fx5[OF w(5)] obj5(4) by (simp add: tables_fixed_def)
  have f5: "\<forall>e\<in>set ses. fixed_in ?h5 {?ns, ?er} (snd e)"
    using oks fx5 by blast
  from x(4) have fold5: "fold (normalizeSystem E P G ?n ?ns ?er) ses (?h5, tr) = (h6, tr6)"
    by (simp add: len3)
  from fold_spec[OF inv5 t5 f5 ds obj5(2,3) fold5] obtain nps evs where fs0:
    "loop_inv h6 ?ns ?er" "unchanged {?ns, ?er} ?h5 h6"
    "the_obj h6 ?ns = Object nps" "the_obj h6 ?er = Array ([] @ evs)"
    "\<forall>k. k \<notin> fst ` set ses \<longrightarrow> map_of nps k = map_of [] k"
    "\<forall>e\<in>set ses. entry_done h6 (length ?h5) [] nps P G (JRef ?n) e"
    "list_all2 (error_logged h6 (length ?h5)) evs (failures h6 P G (JRef ?n) ses)"
    by blast
  have fs: "loop_inv h6 ?ns ?er" "unchanged {?ns, ?er} ?h5 h6"
    "the_obj h6 ?ns = Object nps" "the_obj h6 ?er = Array evs"
    "\<forall>k. k \<notin> fst ` set ses \<longrightarrow> map_of nps k = None"
    "\<forall>e\<in>set ses. entry_done h6 (?n + 3) [] nps P G (JRef ?n) e"
    "list_all2 (error_logged h6 (?n + 3)) evs (failures h6 P G (JRef ?n) ses)"
    using fs0 unfolding obj5(4) by simp_all
  have u16: "unchanged {} h1 h6" by (rule unchanged_fresh[OF fs(2) _ u15]) simp
  have len6: "?n + 3 \<le> length h6" using unchanged_length[OF fs(2)] obj5(4) by simp
  from x(5) obtain res_es where oa: "Object_entries h6 (JRef r) = Inr res_es" "res = length h6"
    "h7 = h6 @ [Object (data_props (assign_all [] (res_es @ [(''systems'', JRef (length h3))])))]"
    by (rule Object_assign_Inr)
  let ?bps = "data_props (assign_all [] (res_es @ [(''systems'', JRef ?ns)]))"
  have h7: "h7 = h6 @ [Object ?bps]" using oa(3) by (simp add: len3)
  have er7: "the_obj h7 ?er = Array evs"
    unfolding h7 using fs(4) len6 by (simp add: the_obj_append)
  have el: "errors_length h7 (Suc (length h3)) = length evs"
    using er7 by (simp add: errors_length_def len3)
  let ?cond = "evs \<noteq> [] \<and> Logger E"
  let ?rps = "if ?cond then AList.update ''_normalizationErrors'' (Data (JRef ?er)) ?bps else ?bps"
  have h': "h' = (if ?cond then obj_set h7 res ''_normalizationErrors'' (JRef ?er) else h7)"
    using x(7) el by (simp add: len3)
  have res7: "the_obj h7 res = Object ?bps" "res < length h7"
    unfolding h7 oa(2) by (simp_all add: the_obj_new)
  have resh': "the_obj h' res = Object ?rps"
  proof (cases ?cond)
    case True
    then have "h' = obj_set h7 res ''_normalizationErrors'' (JRef ?er)" by (auto simp: h')
    with True show ?thesis by (simp add: the_obj_obj_set_same[OF res7])
  next
    case False
    then have "h' = h7" by (auto simp: h')
    with False res7(1) show ?thesis by auto
  qed
  have u67: "unchanged {res} h6 h'"
    unfolding h' h7 using unchanged_trans[OF unchanged_append unchanged_obj_set]
    by (simp add: unchanged_append)
  have fr: "\<forall>a\<in>{res}. length h6 \<le> a" by (simp add: oa(2))
  have u1': "unchanged {} h1 h'"
    by (rule unchanged_fresh[OF u67 _ u16]) (use unchanged_length[OF u16] oa(2) in simp)
  have fx6: "fixed_in h6 {res} v" if "val_ok ?n v" for v
    using that len6 oa(2) by (cases v) auto
  have t6: "tables_fixed h6 {res} P G ?n"
    using w(8,9) fx6[OF w(4)] fx6[OF w(5)] len6 oa(2) by (simp add: tables_fixed_def)
  have f6: "\<forall>e\<in>set ses. fixed_in h6 {res} (snd e)" using oks fx6 by blast
  have lenh': "res < length h'" unfolding h' using res7(2) by (simp add: length_obj_set)
  have c15: "Object_entries h' C = Inr ces"
    using Object_entries_unchanged[OF u1' fx[OF w(6)]] ces1 by simp
  have c16: "Object_entries h' S = Inr ses"
    using Object_entries_unchanged[OF u1' fx[OF w(3)]] ses1 by simp
  have sp: "sector_pairs h' ces = sector_pairs h1 ces"
    by (rule sector_pairs_unchanged[OF w(1) u1' okc])
  have sbs6: "the_obj h6 ?n = Object ?idx"
    using unchanged_the_obj[OF fs(2), of ?n] obj5 by simp
  have c17: "the_obj h' ?n = Object (index_props (sector_pairs h' ces) [])"
    unfolding sp using unchanged_below[OF u67 fr, of ?n] sbs6 len6 by simp
  have c18: "\<forall>(name, lst)\<in>set ces. forEach_target h' lst = Inr (members h' lst)"
    using b(2) okc forEach_target_unchanged[OF u1' fx] members_unchanged[OF u1' fx]
    by fastforce
  have c19: "the_obj h' ?ns = Object nps" "the_obj h' ?er = Array evs"
    using unchanged_below[OF u67 fr] fs(3,4) len6 by simp_all
  have c22: "\<forall>e\<in>set ses. entry_done h' (?n + 3) [] nps P G (JRef ?n) e"
    using entry_done_unchanged[OF _ u67 fr _ t6] fs(6) f6 by blast
  have fl: "failures h' P G (JRef ?n) ses = failures h6 P G (JRef ?n) ses"
    by (rule failures_unchanged[OF u67 f6 t6])
  have c23: "list_all2 (error_logged h' (?n + 3)) evs (failures h' P G (JRef ?n) ses)"
    unfolding fl using error_logged_unchanged[OF _ u67 fr]
    by (intro list_all2_mono[OF fs(7)]) auto
  have c25: "map_of ?rps ''systems'' = Some (Data (JRef ?ns))"
    by (simp add: map_of_data_props map_of_assign_all_snoc1 update_conv')
  have c26: "?cond \<longrightarrow> map_of ?rps ''_normalizationErrors'' = Some (Data (JRef ?er))"
    by (simp add: update_conv')
  have c27: "\<not> ?cond \<longrightarrow> (\<exists>res_es. Object_entries h' (JRef r) = Inr res_es \<and>
          ?rps = data_props (assign_all [] (res_es @ [(''systems'', JRef ?ns)])))"
  proof -
    have "fixed_in h6 {res} (JRef r)"
      using r unchanged_length[OF w(2)] unchanged_length[OF u16] oa(2) by simp
    from Object_entries_unchanged[OF u67 this] oa(1) show ?thesis by auto
  qed
  have lx: "l = \<lparr>result = JRef res, normalizedSystems = ?ns, errors = ?er, sectorBySystem = ?n\<rparr>"
    using x(6) by (simp add: len3)
  have c13: "?n + 3 \<le> res" using len6 oa(2) by simp
  have "run_facts E h h1 h' r l S P G C ces ses nps evs ?rps res"
    unfolding run_facts_def
    using w(1,2) u1' w(3-10) lx c13 lenh' c15 c16 c17 c18 c19 fs(5) c22 c23 resh' c25 c26 c27
    by (intro conjI) assumption+
  then show thesis by (rule that)
qed

lemma run_factsD:
  assumes "run_facts E h h1 h' r l S P G C ces ses nps evs rps res"
  shows "wf_heap h1" "unchanged {} h h1" "unchanged {} h1 h'"
    "val_ok (length h1) S" "val_ok (length h1) P" "val_ok (length h1) G" "val_ok (length h1) C"
    "truthy S" "truthy P" "truthy G" "truthy C"
    "l = \<lparr>result = JRef res, normalizedSystems = length h1 + 1, errors = length h1 + 2,
          sectorBySystem = length h1\<rparr>"
    "length h1 + 3 \<le> res" "res < length h'"
    "Object_entries h' C = Inr ces" "Object_entries h' S = Inr ses"
    "the_obj h' (length h1) = Object (index_props (sector_pairs h' ces) [])"
    "\<forall>(name, lst)\<in>set ces. forEach_target h' lst = Inr (members h' lst)"
    "the_obj h' (length h1 + 1) = Object nps" "the_obj h' (length h1 + 2) = Array evs"
    "\<forall>k. k \<notin> fst ` set ses \<longrightarrow> map_of nps k = None"
    "\<forall>e\<in>set ses. entry_done h' (length h1 + 3) [] nps P G (JRef (length h1)) e"
    "list_all2 (error_logged h' (length h1 + 3)) evs (failures h' P G (JRef (length h1)) ses)"
    "the_obj h' res = Object rps" "map_of rps ''systems'' = Some (Data (JRef (length h1 + 1)))"
    "evs \<noteq> [] \<and> Logger E \<longrightarrow> map_of rps ''_normalizationErrors'' = Some (Data (JRef (length h1 + 2)))"
    "\<not> (evs \<noteq> [] \<and> Logger E) \<longrightarrow>
       (\<exists>res_es. Object_entries h' (JRef r) = Inr res_es \<and>
          rps = data_props (assign_all [] (res_es @ [(''systems'', JRef (length h1 + 1))])))"
  using assms unfolding run_facts_def by - (elim conjE, assumption)+

lemma mergeSystem_trace:
  "mergeSystem E h tr pix grid sbs sid base = (r, h2, t) \<Longrightarrow>
   \<exists>t'. mergeSystem E h tr2 pix grid sbs sid base = (r, h2, t')"
  unfolding mergeSystem_def Let_def
  by (auto split: sum.splits prod.splits)

lemma normalizeSystem_trace:
  assumes "normalizeSystem E pix grid sbs ns er e (h, tr) = (h', tr')"
  shows "\<exists>t'. normalizeSystem E pix grid sbs ns er e (h, tr2) = (h', t')"
proof -
  obtain base h1 where oe: "or_empty h (snd e) = (base, h1)" by (cases "or_empty h (snd e)")
  obtain r h2 t where m: "mergeSystem E h1 tr pix grid sbs (fst e) base = (r, h2, t)"
    by (cases "mergeSystem E h1 tr pix grid sbs (fst e) base") auto
  from mergeSystem_trace[OF m, of tr2] obtain t2 where
    m2: "mergeSystem E h1 tr2 pix grid sbs (fst e) base = (r, h2, t2)" by blast
  from assms oe m m2 show ?thesis
    by (cases r) (auto simp: normalizeSystem_def split: prod.splits)
qed

lemma fold_normalizeSystem_trace:
  "fold (normalizeSystem E pix grid sbs ns er) es (h, tr) = (h', tr') \<Longrightarrow>
   \<exists>t'. fold (normalizeSystem E pix grid sbs ns er) es (h, tr2) = (h', t')"
proof (induction es arbitrary: h tr tr2)
  case Nil
  then show ?case by simp
next
  case (Cons e es)
  obtain hm trm where st: "normalizeSystem E pix grid sbs ns er e (h, tr) = (hm, trm)"
    by (cases "normalizeSystem E pix grid sbs ns er e (h, tr)")
  from normalizeSystem_trace[OF st, of tr2] obtain t2 where
    st2: "normalizeSystem E pix grid sbs ns er e (h, tr2) = (hm, t2)" by blast
  from Cons.prems st have "fold (normalizeSystem E pix grid sbs ns er) es (hm, trm) = (h', tr')"
    by simp
  from Cons.IH[OF this, of t2] st2 show ?case by simp
qed

lemma normalizeObject_trace:
  assumes "normalizeObject E h tr raw = (r, h', tr')"
  shows "\<exists>t'. normalizeObject E h tr2 raw = (r, h', t')"
proof (cases "read_sources h raw")
  case (Inl e)
  with assms show ?thesis by (simp add: normalizeObject_def)
next
  case (Inr x)
  obtain S P G C h1 where x: "x = ((S, P, G, C), h1)" by (cases x) auto
  let ?h2 = "h1 @ [Object []]"
  show ?thesis
  proof (cases "Object_entries ?h2 C")
    case ce: (Inl e)
    with assms Inr x show ?thesis by (simp add: normalizeObject_def alloc_def)
  next
    case ce: (Inr ces)
    show ?thesis
    proof (cases "build_sectorBySystem ?h2 (length h1) ces")
      case b: (Inl e)
      with assms Inr x ce show ?thesis by (simp add: normalizeObject_def alloc_def)
    next
      case b: (Inr h3)
      let ?h5 = "h3 @ [Object [], Array []]"
      show ?thesis
      proof (cases "Object_entries ?h5 S")
        case se: (Inl e)
        with assms Inr x ce b show ?thesis by (simp add: normalizeObject_def alloc_def)
      next
        case se: (Inr ses)
        let ?F = "normalizeSystem E P G (length h1) (length h3) (Suc (length h3))"
        obtain h6 tr6 where f: "fold ?F ses (?h5, tr) = (h6, tr6)"
          by (cases "fold ?F ses (?h5, tr)")
        from fold_normalizeSystem_trace[OF f, of tr2] obtain t6 where
          f2: "fold ?F ses (?h5, tr2) = (h6, t6)" by blast
        from assms Inr x ce b se f f2 show ?thesis
          by (auto simp: normalizeObject_def alloc_def split: sum.splits prod.splits if_splits)
      qed
    qed
  qed
qed

lemma normalizeDatasetSync_trace:
  assumes "normalizeDatasetSync E h tr raw = (r, h', tr')"
  shows "\<exists>t'. normalizeDatasetSync E h tr2 raw = (r, h', t')"
proof (cases "\<not> truthy raw \<or> typeof raw \<noteq> ''object''")
  case True
  with assms show ?thesis by (auto simp: normalizeDatasetSync_def alloc_def)
next
  case False
  obtain ro ho to where n: "normalizeObject E h tr raw = (ro, ho, to)"
    by (cases "normalizeObject E h tr raw") auto
  from normalizeObject_trace[OF n, of tr2] obtain t2 where
    n2: "normalizeObject E h tr2 raw = (ro, ho, t2)" by blast
  from assms False n n2 show ?thesis
    by (cases ro) (auto simp: normalizeDatasetSync_def)
qed

lemma normalizeDatasetSync_object:
  "normalizeObject E h tr (JRef r) = (Inr l, h', tr') \<Longrightarrow>
   normalizeDatasetSync E h tr (JRef r) = (Inr (result l), h', tr')"
  by (simp add: normalizeDatasetSync_def)



lemma failures_member:
  "(sid, sys) \<in> set es \<Longrightarrow> merge_result h pix grid sec sid sys = Inl err \<Longrightarrow>
   (sid, err) \<in> set (failures h pix grid sec es)"
  by (auto simp: failures_def intro!: bexI[of _ "(sid, sys)"])

lemma list_all2_right_member:
  "list_all2 P xs ys \<Longrightarrow> y \<in> set ys \<Longrightarrow> \<exists>x\<in>set xs. P x y"
proof -
  assume a: "list_all2 P xs ys" "y \<in> set ys"
  then obtain i where i: "i < length ys" "ys ! i = y" by (auto simp: in_set_conv_nth)
  with a(1) have "P (xs ! i) y" "i < length xs"
    by (auto simp: list_all2_conv_all_nth)
  then show ?thesis by (auto intro: bexI[of _ "xs ! i"])
qed


subsection \<open>One normalized system\<close>


subsection \<open>The sector index\<close>

lemma read_sources_exists:
  assumes "normalizeObject E h tr raw = (Inr l, h', tr')"
  obtains S P G C h1 where "read_sources h raw = Inr ((S, P, G, C), h1)"
proof (cases "read_sources h raw")
  case (Inl e)
  with assms show ?thesis by (simp add: normalizeObject_def)
next
  case (Inr x)
  obtain S P G C h1 where "x = ((S, P, G, C), h1)" by (cases x) auto
  with Inr that show ?thesis by simp
qed

lemma sector_pairs_append:
  "sector_pairs h (xs @ ys) = sector_pairs h xs @ sector_pairs h ys"
  by (simp add: sector_pairs_def)


subsection \<open>Cache keys\<close>

text \<open>\<^verbatim>\<open>JSON.stringify\<close> never gives the empty string, so a key that is a string passes the test \<^verbatim>\<open>if (cacheKey)\<close>.\<close>

lemma stringify_nonempty: "stringify h st v = Inr (Some s) \<Longrightarrow> s \<noteq> []"
proof (cases v)
  case (JRef a)
  assume "stringify h st v = Inr (Some s)"
  with JRef show ?thesis
    by (auto split: if_splits obj.splits sum.splits)
next
  case (JNum n)
  assume "stringify h st v = Inr (Some s)"
  with JNum show ?thesis by (auto simp: dec_int_def dec_nonempty split: if_splits)
qed (auto simp: quote_def split: if_splits)

lemma generateCacheKey_truthy: "generateCacheKey h raw = JStr k \<Longrightarrow> truthy (JStr k)"
  by (auto simp: generateCacheKey_def dest: stringify_nonempty split: sum.splits option.splits)


lemma collect_map_Inr: "collect (map (\<lambda>x. Inr (f x)) xs) = Inr (map f xs)"
  by (induction xs) auto






section \<open>The claims\<close>

text \<open>
  Claim C1. For an argument that is \<^verbatim>\<open>null\<close> or whose \<^verbatim>\<open>typeof\<close> is not \<^verbatim>\<open>'object'\<close> (so
  \<^verbatim>\<open>undefined\<close>, a boolean, a number or a string; the falsy ones among them are caught by
  \<^verbatim>\<open>!raw\<close> already), \<^verbatim>\<open>normalizeDatasetSync\<close> does not throw: it returns a new object whose only
  property is \<^verbatim>\<open>systems\<close>, a new empty object, and leaves the store as it was otherwise.
  The diagnostic goes to \<^verbatim>\<open>DM4.Logger.warn\<close> when a logger is installed, to
  \<^verbatim>\<open>console.warn\<close> when there is none and the debug flag is set, and nowhere when there is
  neither.
\<close>

theorem invalid_input_gives_empty_systems:
  assumes "raw = JNull \<or> typeof raw \<noteq> ''object''"
  shows "normalizeDatasetSync E h tr raw =
           (Inr (JRef (Suc (length h))),
            h @ [Object [], Object [(''systems'', Data (JRef (length h)))]],
            if Logger E then tr @ [LoggerWarn invalid_message]
            else if DM4_DEBUG E then tr @ [ConsoleWarn (''[DREADMARCH] '' @ invalid_message)]
            else tr)"
  using assms by (cases raw) (auto simp: normalizeDatasetSync_def alloc_def)

theorem invalid_input_gives_empty_systems_witness:
  "normalizeDatasetSync env_logger [] [] JNull =
     (Inr (JRef 1), [Object [], Object [(''systems'', Data (JRef 0))]],
      [LoggerWarn invalid_message])"
  using invalid_input_gives_empty_systems[of JNull env_logger "[]" "[]"]
  by (simp add: env_logger_def)

text \<open>Without a logger and without the debug flag, \<^verbatim>\<open>normalize(null)\<close> gives \<^verbatim>\<open>{systems: {}}\<close>
  and no diagnostic at all.\<close>

theorem invalid_input_no_diagnostic_counterexample:
  "normalizeDatasetSync env_bare [] [] JNull =
     (Inr (JRef 1), [Object [], Object [(''systems'', Data (JRef 0))]], [])"
  by code_simp








text \<open>
  Claim C5. When a synchronous \<^verbatim>\<open>normalize(raw)\<close> has returned a result and \<^verbatim>\<open>raw\<close> was
  serializable, a later synchronous call on an argument with the same serialization (the
  same object, or another one that is structurally equal to it) is answered from the
  cache: it returns the very reference that the first call returned, allocates nothing
  and changes nothing but the log.
\<close>

theorem cached_call_returns_same_instance:
  assumes "normalizeDataset E s raw False = (Returns v, s1)"
    and "generateCacheKey (heap s) raw = JStr k"
    and "generateCacheKey (heap s1) raw' = JStr k"
  shows "normalizeDataset E s1 raw' False =
           (Returns v, s1\<lparr>trace := Logger_info E ''Cache hit for dataset normalization'' (trace s1)\<rparr>)"
proof -
  have t: "truthy (JStr k)" using assms(2) by (rule generateCacheKey_truthy)
  have c: "map_of (normalizationCache s1) (JStr k) = Some v"
  proof (cases "Map_has (normalizationCache s) (JStr k)")
    case True
    with assms(1,2) t show ?thesis
      by (auto simp: normalizeDataset_def Map_has_def Map_get_def Let_def)
  next
    case False
    with assms(1,2) t show ?thesis
      by (auto simp: normalizeDataset_def Let_def Map_set_def update_conv'
          split: prod.splits sum.splits)
  qed
  with assms(3) t show ?thesis
    by (simp add: normalizeDataset_def Let_def Map_has_def Map_get_def)
qed

text \<open>The dataset \<^verbatim>\<open>{systems: {sol: null}}\<close> at address 0 is normalized first, then its copy at
  address 2: both calls return the object at address 12.\<close>

theorem cached_call_returns_same_instance_witness:
  "normalizeDataset env_logger (initial_state twin_heap) (JRef 0) False =
     (Returns (JRef 12), twin_cached) \<and>
   normalizeDataset env_logger twin_cached (JRef 2) False =
     (Returns (JRef 12),
      twin_cached\<lparr>trace := [LoggerInfo ''Cache hit for dataset normalization'']\<rparr>)"
proof -
  have 1: "normalizeDataset env_logger (initial_state twin_heap) (JRef 0) False =
             (Returns (JRef 12), twin_cached)"
    by code_simp
  have 2: "generateCacheKey (heap (initial_state twin_heap)) (JRef 0) = JStr twin_key"
    by code_simp
  have 3: "generateCacheKey (heap twin_cached) (JRef 2) = JStr twin_key" by code_simp
  have 4: "Logger_info env_logger ''Cache hit for dataset normalization'' (trace twin_cached) =
             [LoggerInfo ''Cache hit for dataset normalization'']"
    by code_simp
  from cached_call_returns_same_instance[OF 1 2 3] 1 4 show ?thesis by simp
qed




text \<open>What the loop over the systems does with a system whose merge throws, for every
  dataset: the system gets no entry in \<^verbatim>\<open>normalizedSystems\<close>, a record
  \<^verbatim>\<open>{systemId, error}\<close> with its id and the message is in \<^verbatim>\<open>errors\<close>, every other system is
  merged as if nothing had happened, \<^verbatim>\<open>errors\<close> has one record for each failure, and with a
  logger installed a non-empty \<^verbatim>\<open>errors\<close> is the result's \<^verbatim>\<open>_normalizationErrors\<close>.\<close>

lemma failed_system_dropped_and_recorded:
  assumes "wf_heap h" "r < length h"
    and "normalizeObject E h tr (JRef r) = (Inr l, h', tr')"
    and "read_sources h (JRef r) = Inr ((systemsSrc, pixelsSrc, gridSrc, sectorsSrc), h1)"
    and "Object_entries h' systemsSrc = Inr ses"
  shows "\<exists>evs.
           the_obj h' (errors l) = Array evs \<and>
           (\<forall>(sid, sys) \<in> set ses.
              case merge_result h' pixelsSrc gridSrc (JRef (sectorBySystem l)) sid sys of
                Inl err \<Rightarrow>
                  prop_get h' (JRef (normalizedSystems l)) sid = Inr JUndefined \<and>
                  (\<exists>rec. JRef rec \<in> set evs \<and> the_obj h' rec = error_record sid err)
              | Inr ps \<Rightarrow>
                  (\<exists>a. prop_get h' (JRef (normalizedSystems l)) sid = Inr (JRef a) \<and>
                       the_obj h' a = Object (data_props ps))) \<and>
           length evs = length (failures h' pixelsSrc gridSrc (JRef (sectorBySystem l)) ses) \<and>
           (Logger E \<and> evs \<noteq> [] \<longrightarrow>
              prop_get h' (result l) ''_normalizationErrors'' = Inr (JRef (errors l)))"
proof -
  obtain ces ses' nps evs rps res where
    rf: "run_facts E h h1 h' r l systemsSrc pixelsSrc gridSrc sectorsSrc ces ses' nps evs rps res"
    by (rule normalizeObject_summary[OF assms(1-4)])
  note s = run_factsD[OF rf]
  from s(16) assms(5) have ses: "ses' = ses" by simp
  from s(12) have l: "normalizedSystems l = length h1 + 1" "sectorBySystem l = length h1"
    "errors l = length h1 + 2" "result l = JRef res" by simp_all
  have each: "case merge_result h' pixelsSrc gridSrc (JRef (length h1)) sid sys of
                Inl err \<Rightarrow>
                  prop_get h' (JRef (length h1 + 1)) sid = Inr JUndefined \<and>
                  (\<exists>rec. JRef rec \<in> set evs \<and> the_obj h' rec = error_record sid err)
              | Inr ps \<Rightarrow>
                  (\<exists>a. prop_get h' (JRef (length h1 + 1)) sid = Inr (JRef a) \<and>
                       the_obj h' a = Object (data_props ps))"
    if e: "(sid, sys) \<in> set ses" for sid sys
  proof -
    from s(22) e ses
    have ed: "entry_done h' (length h1 + 3) [] nps pixelsSrc gridSrc (JRef (length h1)) (sid, sys)"
      by blast
    show ?thesis
    proof (cases "merge_result h' pixelsSrc gridSrc (JRef (length h1)) sid sys")
      case (Inl err)
      from failures_member[OF e Inl] s(23) ses obtain v where
        v: "v \<in> set evs" "error_logged h' (length h1 + 3) v (sid, err)"
        by (blast dest: list_all2_right_member)
      then obtain rec where "v = JRef rec" "the_obj h' rec = error_record sid err"
        by (auto simp: error_logged_def)
      with v(1) ed Inl s(19) show ?thesis
        by (auto simp: entry_done_def)
    next
      case (Inr ps)
      with ed s(19) show ?thesis by (auto simp: entry_done_def)
    qed
  qed
  have len: "length evs = length (failures h' pixelsSrc gridSrc (JRef (length h1)) ses)"
    using s(23) ses by (auto dest: list_all2_lengthD)
  have exposed: "Logger E \<and> evs \<noteq> [] \<longrightarrow>
      prop_get h' (JRef res) ''_normalizationErrors'' = Inr (JRef (length h1 + 2))"
    using s(24,26) by auto
  show ?thesis
    apply (rule exI[of _ evs])
    unfolding l using s(20) each len exposed by blast
qed

text \<open>On the dataset with the throwing getter and a logger installed: \<^verbatim>\<open>bad\<close> is dropped,
  \<^verbatim>\<open>ok\<close> is merged, and the result carries the errors.\<close>

lemma failed_system_with_logger:
  "normalizeDatasetSync env_logger getter_heap [] (JRef 0) =
     (Inr (JRef 12), getter_after_logger,
      [LoggerWarn ''Failed to normalize system bad:'',
       LoggerWarn ''Normalization completed with errors'']) \<and>
   Object_entries getter_after_logger (JRef 8) = Inr [(''ok'', JRef 11)] \<and>
   prop_get getter_after_logger (JRef 12) ''_normalizationErrors'' = Inr (JRef 9) \<and>
   the_obj getter_after_logger 9 = Array [JRef 10] \<and>
   the_obj getter_after_logger 10 = error_record ''bad'' (Error ''boom'')"
  by code_simp

text \<open>
  Claim C7. The same dataset without a logger (\<^verbatim>\<open>DM4.Logger\<close> undefined): the failure of
  \<^verbatim>\<open>bad\<close> is caught and recorded in \<^verbatim>\<open>errors\<close>, \<^verbatim>\<open>bad\<close> is dropped and \<^verbatim>\<open>ok\<close> is merged, but
  the object that is returned has the property \<^verbatim>\<open>systems\<close> and no other: the test
  \<^verbatim>\<open>errors.length > 0 && DM4.Logger\<close> guards the assignment of \<^verbatim>\<open>_normalizationErrors\<close>
  together with the warning, so the recorded errors are not exposed.
\<close>

theorem errors_not_exposed_without_logger:
  "normalizeDatasetSync env_bare getter_heap [] (JRef 0) =
     (Inr (JRef 12), getter_after_bare, []) \<and>
   Object_entries getter_after_bare (JRef 8) = Inr [(''ok'', JRef 11)] \<and>
   the_obj getter_after_bare 9 = Array [JRef 10] \<and>
   the_obj getter_after_bare 10 = error_record ''bad'' (Error ''boom'') \<and>
   Object_entries getter_after_bare (JRef 12) = Inr [(''systems'', JRef 8)] \<and>
   prop_get getter_after_bare (JRef 12) ''_normalizationErrors'' = Inr JUndefined"
  by code_simp

text \<open>Read off that run: one error is on record, and the returned object has the property
  \<^verbatim>\<open>systems\<close> alone.\<close>

theorem errors_not_exposed_without_logger_witness:
  "the_obj getter_after_bare 9 = Array [JRef 10] \<and>
   Object_entries getter_after_bare (JRef 12) = Inr [(''systems'', JRef 8)]"
  using errors_not_exposed_without_logger by blast

text \<open>
  Claim C8. Where no \<^verbatim>\<open>Worker\<close> exists and none has been created, the call of
  \<^verbatim>\<open>normalize(raw, {async: true})\<close> and the call of \<^verbatim>\<open>normalize(raw)\<close> from the same state come
  to the same end: the promise is resolved with the very value that the synchronous call
  returns (from the cache, or from \<^verbatim>\<open>normalizeDatasetSync\<close>), or rejected with the exception
  that it throws, and the two calls leave the same store and the same cache.
\<close>

theorem async_fallback_agrees_with_sync:
  assumes "Worker E = NoWorker" "\<not> worker s"
    and "normalizeDataset E s raw False = (out, s_sync)"
    and "normalizeDataset E s raw True = (out_async, s_async)"
  shows "((\<exists>v. out = Returns v \<and> out_async = Promise (Resolved v)) \<or>
          (\<exists>e. out = Throws e \<and> out_async = Promise (Rejected e))) \<and>
         heap s_async = heap s_sync \<and>
         normalizationCache s_async = normalizationCache s_sync"
proof (cases "truthy (generateCacheKey (heap s) raw) \<and>
              Map_has (normalizationCache s) (generateCacheKey (heap s) raw)")
  case True
  with assms(3,4) show ?thesis
    by (auto simp: normalizeDataset_def normalizeDatasetAsync_def Let_def)
next
  case False
  obtain ro ho to where n: "normalizeDatasetSync E (heap s) (trace s) raw = (ro, ho, to)"
    by (cases "normalizeDatasetSync E (heap s) (trace s) raw") auto
  from normalizeDatasetSync_trace[OF n] obtain t2 where
    n2: "normalizeDatasetSync E (heap s)
           (Logger_info E ''Worker not available, using synchronous normalization'' (trace s)) raw
         = (ro, ho, t2)" by blast
  have iw: "initWorker E s = s" using assms(1) by (simp add: initWorker_def)
  from assms(2,3,4) False n n2 iw show ?thesis
    by (cases ro) (auto simp: normalizeDataset_def normalizeDatasetAsync_def Let_def)
qed

theorem async_fallback_agrees_with_sync_witness:
  "normalizeDataset env_logger (initial_state sol_heap) (JRef 0) False =
     (Returns (JRef 12), sol_cached) \<and>
   fst (normalizeDataset env_logger (initial_state sol_heap) (JRef 0) True) =
     Promise (Resolved (JRef 12)) \<and>
   heap (snd (normalizeDataset env_logger (initial_state sol_heap) (JRef 0) True)) = sol_after \<and>
   normalizationCache (snd (normalizeDataset env_logger (initial_state sol_heap) (JRef 0) True)) =
     [(JStr sol_key, JRef 12)]"
proof -
  have 1: "Worker env_logger = NoWorker" by (simp add: env_logger_def)
  have 2: "\<not> worker (initial_state sol_heap)" by (simp add: initial_state_def)
  have 3: "normalizeDataset env_logger (initial_state sol_heap) (JRef 0) False =
             (Returns (JRef 12), sol_cached)"
    by code_simp
  have 4: "normalizeDataset env_logger (initial_state sol_heap) (JRef 0) True =
             (fst (normalizeDataset env_logger (initial_state sol_heap) (JRef 0) True),
              snd (normalizeDataset env_logger (initial_state sol_heap) (JRef 0) True))"
    by simp
  from async_fallback_agrees_with_sync[OF 1 2 3 4] 3 show ?thesis
    by (simp add: sol_cached_def initial_state_def)
qed

text \<open>
  Claim C9. A run of \<^verbatim>\<open>normalizeDatasetSync\<close> on an object of a well-formed store that
  returns has only added objects to the store: every object that was there before the
  call, the argument and all that it refers to among them, is what it was. The result is
  a new object, its \<^verbatim>\<open>systems\<close> is a new object, and every value in that \<^verbatim>\<open>systems\<close> is a
  reference to an object allocated during the call.
\<close>

theorem input_not_mutated:
  assumes "wf_heap h" "r < length h"
    and "normalizeObject E h tr (JRef r) = (Inr l, h', tr')"
    and "read_sources h (JRef r) = Inr ((systemsSrc, pixelsSrc, gridSrc, sectorsSrc), h1)"
  shows "take (length h) h' = h \<and>
         normalizeDatasetSync E h tr (JRef r) = (Inr (result l), h', tr') \<and>
         (\<exists>res. result l = JRef res \<and> length h \<le> res \<and> res < length h') \<and>
         length h \<le> normalizedSystems l \<and>
         prop_get h' (result l) ''systems'' = Inr (JRef (normalizedSystems l)) \<and>
         (\<forall>k v. prop_get h' (JRef (normalizedSystems l)) k = Inr v \<longrightarrow>
            v = JUndefined \<or> (\<exists>a. v = JRef a \<and> length h \<le> a \<and> a < length h'))"
proof -
  obtain ces ses nps evs rps res where
    rf: "run_facts E h h1 h' r l systemsSrc pixelsSrc gridSrc sectorsSrc ces ses nps evs rps res"
    by (rule normalizeObject_summary[OF assms(1-4)])
  note s = run_factsD[OF rf]
  from s(12) have l: "normalizedSystems l = length h1 + 1" "result l = JRef res" by simp_all
  have len: "length h \<le> length h1" using s(2) by (simp add: unchanged_def)
  have u: "unchanged {} h h'" by (rule unchanged_trans[OF s(2,3)])
  have t: "take (length h) h' = h" by (rule unchanged_take[OF u]) simp
  have vals: "v = JUndefined \<or> (\<exists>a. v = JRef a \<and> length h \<le> a \<and> a < length h')"
    if g: "prop_get h' (JRef (length h1 + 1)) k = Inr v" for k v
  proof (cases "k \<in> fst ` set ses")
    case False
    with s(21) have "map_of nps k = None" by blast
    with g s(19) show ?thesis by simp
  next
    case True
    then obtain sys where e: "(k, sys) \<in> set ses" by auto
    with s(22) have ed: "entry_done h' (length h1 + 3) [] nps pixelsSrc gridSrc (JRef (length h1)) (k, sys)"
      by blast
    show ?thesis
    proof (cases "merge_result h' pixelsSrc gridSrc (JRef (length h1)) k sys")
      case (Inl err)
      with ed g s(19) show ?thesis by (simp add: entry_done_def)
    next
      case (Inr ps)
      with ed g s(19) len show ?thesis by (auto simp: entry_done_def)
    qed
  qed
  have d: "normalizeDatasetSync E h tr (JRef r) = (Inr (JRef res), h', tr')"
    using normalizeDatasetSync_object[OF assms(3)] l(2) by simp
  from t d s(13,14,24,25) len vals show ?thesis unfolding l by auto
qed

text \<open>In the dataset of the example the seven objects of the argument are untouched, and
  the result (address 12), its \<^verbatim>\<open>systems\<close> (address 9) and the system in it (address 11)
  are new.\<close>

theorem input_not_mutated_witness:
  "wf_heap sol_heap \<and>
   normalizeObject env_logger sol_heap [] (JRef 0) = (Inr sol_locals, sol_after, []) \<and>
   take (length sol_heap) sol_after = sol_heap \<and>
   normalizeDatasetSync env_logger sol_heap [] (JRef 0) = (Inr (JRef 12), sol_after, []) \<and>
   prop_get sol_after (JRef 12) ''systems'' = Inr (JRef 9) \<and>
   prop_get sol_after (JRef 9) ''sol'' = Inr (JRef 11) \<and>
   length sol_heap = 7"
proof -
  have 1: "wf_heap sol_heap" by code_simp
  have 2: "(0::nat) < length sol_heap" by code_simp
  have 3: "normalizeObject env_logger sol_heap [] (JRef 0) = (Inr sol_locals, sol_after, [])"
    by code_simp
  have 4: "read_sources sol_heap (JRef 0) =
             Inr ((JRef 1, JRef 3, JRef 7, JRef 5), sol_heap @ [Object []])"
    by code_simp
  have 5: "result sol_locals = JRef 12" "normalizedSystems sol_locals = 9"
    by (simp_all add: sol_locals_def)
  have 6: "prop_get sol_after (JRef 9) ''sol'' = Inr (JRef 11)" by code_simp
  have 7: "length sol_heap = 7" by (simp add: sol_heap_def)
  from input_not_mutated[OF 1 2 3 4] 1 3 5 6 7 show ?thesis by simp
qed




end
